theory Spec2Isabelle
  imports Complex_Main
begin

section \<open>Numbers, errors and data frames\<close>

text \<open>
  The program is \<^verbatim>\<open>graphing_returns_with_bands.py\<close>. Its numbers are IEEE doubles; they are
  idealised here as real numbers, so rounding, overflow and the infinities are not
  modelled. A price table holds reals (prices are positive in the data model). A band
  frame holds cells that may be NaN: a \<open>float\<close> is \<open>Some x\<close> for the number \<open>x\<close> and
  \<open>None\<close> for NaN. Exceptions are values of the type \<open>error\<close>; a function that can raise
  returns \<open>error + 'a\<close> with \<open>Inl\<close> for the exception.
\<close>

datatype error = KeyError | IndexError | ValueError | TypeError | UnboundLocalError

definition ebind :: "error + 'a \<Rightarrow> ('a \<Rightarrow> error + 'b) \<Rightarrow> error + 'b" where
  "ebind m f = (case m of Inl e \<Rightarrow> Inl e | Inr x \<Rightarrow> f x)"

text \<open>Evaluating a comprehension from left to right: the first element that raises wins.\<close>

fun emap :: "('a \<Rightarrow> error + 'b) \<Rightarrow> 'a list \<Rightarrow> error + 'b list" where
  "emap f [] = Inr []"
| "emap f (x # xs) =
     (case f x of Inl e \<Rightarrow> Inl e
      | Inr y \<Rightarrow> (case emap f xs of Inl e \<Rightarrow> Inl e | Inr ys \<Rightarrow> Inr (y # ys)))"

subsection \<open>Floats with NaN\<close>

text \<open>
  Arithmetic and comparison of doubles that may be NaN: NaN propagates through every
  operation and every comparison with NaN is false. A division by zero, which numpy
  answers with an infinity or NaN, gives \<open>None\<close> here; it can only arise in PnL amounts at a
  zero entry price, and no branch of the program reads a PnL amount.
\<close>

type_synonym float = "real option"

definition fadd :: "float \<Rightarrow> float \<Rightarrow> float" where
  "fadd a b = (case a of None \<Rightarrow> None | Some x \<Rightarrow> (case b of None \<Rightarrow> None | Some y \<Rightarrow> Some (x + y)))"

definition fsub :: "float \<Rightarrow> float \<Rightarrow> float" where
  "fsub a b = (case a of None \<Rightarrow> None | Some x \<Rightarrow> (case b of None \<Rightarrow> None | Some y \<Rightarrow> Some (x - y)))"

definition fmul :: "float \<Rightarrow> float \<Rightarrow> float" where
  "fmul a b = (case a of None \<Rightarrow> None | Some x \<Rightarrow> (case b of None \<Rightarrow> None | Some y \<Rightarrow> Some (x * y)))"

definition fdiv :: "float \<Rightarrow> float \<Rightarrow> float" where
  "fdiv a b = (case a of None \<Rightarrow> None
               | Some x \<Rightarrow> (case b of None \<Rightarrow> None | Some y \<Rightarrow> if y = 0 then None else Some (x / y)))"

definition flt :: "float \<Rightarrow> float \<Rightarrow> bool" where
  "flt a b = (case a of None \<Rightarrow> False | Some x \<Rightarrow> (case b of None \<Rightarrow> False | Some y \<Rightarrow> x < y))"

definition fgt :: "float \<Rightarrow> float \<Rightarrow> bool" where
  "fgt a b = flt b a"

subsection \<open>Data frames\<close>

text \<open>
  A pandas DataFrame as the band estimator builds it and the trade simulator reads and
  writes it: the index (one date per row) and the columns in order, each a list of
  cells, one per row. A cell is a double (\<open>Flt\<close>) or a Python object, \<^verbatim>\<open>None\<close> or a string
  (\<open>Obj\<close>). The dates of an index are distinct, so \<^verbatim>\<open>df.loc[df.index[i], c]\<close> is the cell of
  row \<open>i\<close> in column \<open>c\<close>: KeyError for a missing column, IndexError past the last row.
  Reading a number from a cell that holds an object is TypeError here: the program would
  fail at the first comparison or arithmetic on it. The columns that the band estimator
  returns hold doubles only.
\<close>

datatype cell = Flt float | Obj "string option"

record frame =
  index :: "string list"
  cols :: "(string \<times> cell list) list"

definition column :: "frame \<Rightarrow> string \<Rightarrow> cell list option" where
  "column f c = map_of (cols f) c"

definition assign :: "frame \<Rightarrow> string \<Rightarrow> cell list \<Rightarrow> frame" where
  "assign f c xs =
     f\<lparr>cols := (if c \<in> set (map fst (cols f))
                 then map (\<lambda>(k, v). if k = c then (k, xs) else (k, v)) (cols f)
                 else cols f @ [(c, xs)])\<rparr>"

definition assign_scalar :: "frame \<Rightarrow> string \<Rightarrow> cell \<Rightarrow> frame" where
  "assign_scalar f c v = assign f c (replicate (length (index f)) v)"

definition drop_columns :: "string list \<Rightarrow> frame \<Rightarrow> frame" where
  "drop_columns cs f = f\<lparr>cols := filter (\<lambda>(k, v). k \<notin> set cs) (cols f)\<rparr>"

definition loc :: "frame \<Rightarrow> nat \<Rightarrow> string \<Rightarrow> error + cell" where
  "loc f i c =
     (if length (index f) \<le> i then Inl IndexError
      else (case column f c of None \<Rightarrow> Inl KeyError
            | Some xs \<Rightarrow> if i < length xs then Inr (xs ! i) else Inl IndexError))"

definition as_float :: "cell \<Rightarrow> error + float" where
  "as_float x = (case x of Flt v \<Rightarrow> Inr v | Obj _ \<Rightarrow> Inl TypeError)"

definition loc_float :: "frame \<Rightarrow> nat \<Rightarrow> string \<Rightarrow> error + float" where
  "loc_float f i c = ebind (loc f i c) as_float"

definition set_loc :: "frame \<Rightarrow> nat \<Rightarrow> string \<Rightarrow> cell \<Rightarrow> frame" where
  "set_loc f i c v =
     (case column f c of
        None \<Rightarrow> assign f c ((replicate (length (index f)) (Flt None))[i := v])
      | Some xs \<Rightarrow> assign f c (xs[i := v]))"

type_synonym series = "(string \<times> real) list"

section \<open>The band estimator\<close>

text \<open>
  \<^verbatim>\<open>Series.ewm(halflife=h).mean()\<close> of pandas, with its defaults \<^verbatim>\<open>adjust=True\<close> and
  \<^verbatim>\<open>min_periods=0\<close>, on a series without NaN. The decay is
  \<^verbatim>\<open>alpha = 1 - exp(log(0.5) / halflife)\<close>; a halflife that is not positive raises
  ValueError. \<open>ewm_loop\<close> is the loop of pandas over the values after the first, with the
  running mean \<open>weighted\<close> and the running weight \<open>old_wt\<close>; with \<^verbatim>\<open>adjust=True\<close> the weight
  of a new value is 1 and \<open>old_wt\<close> accumulates.
\<close>

definition ewm_alpha :: "int \<Rightarrow> real" where
  "ewm_alpha halflife = 1 - exp (ln (1/2) / real_of_int halflife)"

fun ewm_loop :: "real \<Rightarrow> real \<Rightarrow> real \<Rightarrow> real list \<Rightarrow> real list" where
  "ewm_loop alpha weighted old_wt [] = []"
| "ewm_loop alpha weighted old_wt (cur # rest) =
     (let old_wt1 = old_wt * (1 - alpha);
          weighted1 = (if weighted \<noteq> cur
                       then (old_wt1 * weighted + 1 * cur) / (old_wt1 + 1)
                       else weighted);
          old_wt2 = old_wt1 + 1
      in weighted1 # ewm_loop alpha weighted1 old_wt2 rest)"

definition ewm_mean :: "real \<Rightarrow> real list \<Rightarrow> real list" where
  "ewm_mean alpha vals = (case vals of [] \<Rightarrow> [] | v # rest \<Rightarrow> v # ewm_loop alpha v 1 rest)"

text \<open>
  \<^verbatim>\<open>Series.rolling(window=w).std()\<close> of pandas, with its defaults \<^verbatim>\<open>min_periods=w\<close> and
  \<^verbatim>\<open>ddof=1\<close>: NaN until the window is full, then the sample standard deviation of the last
  \<open>w\<close> values, which divides by \<open>w - 1\<close> and is NaN for a single observation.
\<close>

definition sample_std :: "real list \<Rightarrow> float" where
  "sample_std w =
     (let nobs = length w; mean = sum_list w / real nobs
      in if nobs \<le> 1 then None
         else Some (sqrt (sum_list (map (\<lambda>x. (x - mean)\<^sup>2) w) / real (nobs - 1))))"

definition rolling_std :: "nat \<Rightarrow> real list \<Rightarrow> float list" where
  "rolling_std window vals =
     map (\<lambda>t. if t + 1 < window then None
              else sample_std (take window (drop (t + 1 - window) vals)))
       [0..<length vals]"

text \<open>
  \<^verbatim>\<open>add_ewma_bollinger_bands\<close>. \<open>bands_with_std_dev\<close> is the frame before the last statement,
  \<^verbatim>\<open>df.drop(columns=['std_dev'], inplace=True)\<close>.
\<close>

definition bands_with_std_dev :: "series \<Rightarrow> int \<Rightarrow> frame" where
  "bands_with_std_dev portfolio_values halflife_days =
     (let vals = map snd portfolio_values;
          df0 = \<lparr>index = map fst portfolio_values,
                 cols = [(''portfolio_value'', map (\<lambda>v. Flt (Some v)) vals)]\<rparr>;
          ewma_col = map Some (ewm_mean (ewm_alpha halflife_days) vals);
          df1 = assign df0 ''ewma'' (map Flt ewma_col);
          std_dev_col = rolling_std (nat halflife_days) vals;
          df2 = assign df1 ''std_dev'' (map Flt std_dev_col);
          df3 = assign df2 ''bollinger_upper''
                  (map Flt (map2 fadd ewma_col (map (fmul (Some 2)) std_dev_col)));
          df4 = assign df3 ''bollinger_lower''
                  (map Flt (map2 fsub ewma_col (map (fmul (Some 2)) std_dev_col)))
      in df4)"

definition add_ewma_bollinger_bands :: "series \<Rightarrow> int \<Rightarrow> error + frame" where
  "add_ewma_bollinger_bands portfolio_values halflife_days =
     (if halflife_days \<le> 0 then Inl ValueError
      else Inr (drop_columns [''std_dev''] (bands_with_std_dev portfolio_values halflife_days)))"

text \<open>
  The mean of the values up to \<open>t\<close> with the weights \<open>d ^ (t - i)\<close>, which pandas documents
  for \<^verbatim>\<open>adjust=True\<close>; the loop above is compared with it below.
\<close>

definition weighted_mean :: "real \<Rightarrow> real list \<Rightarrow> nat \<Rightarrow> real" where
  "weighted_mean d vals t = (\<Sum>i\<le>t. d ^ (t - i) * vals ! i) / (\<Sum>i\<le>t. d ^ (t - i))"

section \<open>Portfolio valuation\<close>

subsection \<open>The price table\<close>

text \<open>
  The price DataFrame \<open>df\<close>: its column labels and its rows in date order, as
  \<^verbatim>\<open>df.iterrows()\<close> yields them: the date and the prices of that date. A row is a total
  function; only its values at the column labels are read. A dict is an association list
  in insertion order, with distinct keys. Prices are positive; a division by a price
  that is zero, which numpy answers with an infinity, has the value 0 of HOL's division
  here, and no result below rests on it.
\<close>

record prices =
  columns :: "string list"
  rows :: "(string \<times> (string \<Rightarrow> real)) list"

type_synonym 'v dict = "(string \<times> 'v) list"

text \<open>\<^verbatim>\<open>prices[stock]\<close> on a row of the table: a label that is no column raises KeyError.\<close>

definition row_get :: "prices \<Rightarrow> (string \<Rightarrow> real) \<Rightarrow> string \<Rightarrow> error + real" where
  "row_get df r stock = (if stock \<in> set (columns df) then Inr (r stock) else Inl KeyError)"

text \<open>\<^verbatim>\<open>df[stock].iloc[0]\<close>: KeyError for a missing column, IndexError on a table with no row.\<close>

definition iloc0 :: "prices \<Rightarrow> string \<Rightarrow> error + real" where
  "iloc0 df stock =
     (if stock \<notin> set (columns df) then Inl KeyError
      else (case rows df of [] \<Rightarrow> Inl IndexError | r # _ \<Rightarrow> Inr (snd r stock)))"

subsection \<open>The two valuations\<close>

text \<open>
  \<^verbatim>\<open>{stock: initial_investment * weight for stock, weight in weights.items()
     if stock in df.columns}\<close>
\<close>

definition initial_investment_per_stock :: "prices \<Rightarrow> real dict \<Rightarrow> real \<Rightarrow> real dict" where
  "initial_investment_per_stock df weights initial_investment =
     map (\<lambda>(stock, weight). (stock, initial_investment * weight))
       (filter (\<lambda>(stock, weight). stock \<in> set (columns df)) weights)"

text \<open>
  \<^verbatim>\<open>calculate_portfolio_value_no_rebalancing\<close>: for every row, the sum over the retained
  stocks of \<^verbatim>\<open>prices[stock] * (initial_investment_per_stock[stock] / df[stock].iloc[0])\<close>.
  Python's \<^verbatim>\<open>sum\<close> adds from the left starting at 0; over the reals that is \<open>sum_list\<close>.
\<close>

definition no_rebalancing_value ::
  "prices \<Rightarrow> real dict \<Rightarrow> (string \<Rightarrow> real) \<Rightarrow> error + real" where
  "no_rebalancing_value df per_stock r =
     ebind (emap (\<lambda>(stock, amount).
                    ebind (row_get df r stock) (\<lambda>p.
                    ebind (iloc0 df stock) (\<lambda>p0. Inr (p * (amount / p0))))) per_stock)
       (\<lambda>terms. Inr (sum_list terms))"

definition calculate_portfolio_value_no_rebalancing ::
  "prices \<Rightarrow> real dict \<Rightarrow> real \<Rightarrow> error + series" where
  "calculate_portfolio_value_no_rebalancing df weights initial_investment =
     (let per_stock = initial_investment_per_stock df weights initial_investment
      in emap (\<lambda>(date, r).
                 ebind (no_rebalancing_value df per_stock r) (\<lambda>portfolio_value.
                 Inr (date, portfolio_value))) (rows df))"

text \<open>
  \<^verbatim>\<open>calculate_portfolio_value_with_rebalancing\<close>. The loop state is the share dict and the
  list of values so far. \<open>portfolio_value_of\<close> is
  \<^verbatim>\<open>sum(prices[stock] * shares[stock] for stock in shares)\<close>; \<open>rebalance\<close> is the body of
  the \<^verbatim>\<open>if\<close>: it runs over all of \<^verbatim>\<open>weights.items()\<close>, with no test for the column.
\<close>

definition portfolio_value_of ::
  "prices \<Rightarrow> (string \<Rightarrow> real) \<Rightarrow> real dict \<Rightarrow> error + real" where
  "portfolio_value_of df r shares =
     ebind (emap (\<lambda>(stock, held). ebind (row_get df r stock) (\<lambda>p. Inr (p * held))) shares)
       (\<lambda>terms. Inr (sum_list terms))"

definition rebalance ::
  "prices \<Rightarrow> real dict \<Rightarrow> (string \<Rightarrow> real) \<Rightarrow> real \<Rightarrow> error + real dict" where
  "rebalance df weights r portfolio_value =
     (let new_investment_per_stock =
            map (\<lambda>(stock, weight). (stock, portfolio_value * weight)) weights
      in emap (\<lambda>(stock, amount). ebind (row_get df r stock) (\<lambda>p. Inr (stock, amount / p)))
           new_investment_per_stock)"

record valuation_state =
  shares :: "real dict"
  portfolio_values :: "real list"

definition rebalancing_step ::
  "prices \<Rightarrow> real dict \<Rightarrow> int \<Rightarrow> nat \<Rightarrow> (string \<Rightarrow> real) \<Rightarrow> valuation_state
     \<Rightarrow> error + valuation_state" where
  "rebalancing_step df weights rebalance_frequency i r s =
     ebind (portfolio_value_of df r (shares s)) (\<lambda>portfolio_value.
     ebind (if rebalance_frequency > 0 \<and> int i mod rebalance_frequency = 0 \<and> i \<noteq> 0
            then rebalance df weights r portfolio_value
            else Inr (shares s)) (\<lambda>shares'.
     Inr \<lparr>shares = shares', portfolio_values = portfolio_values s @ [portfolio_value]\<rparr>))"

fun rebalancing_loop ::
  "prices \<Rightarrow> real dict \<Rightarrow> int \<Rightarrow> nat \<Rightarrow> (string \<times> (string \<Rightarrow> real)) list \<Rightarrow> valuation_state
     \<Rightarrow> error + valuation_state" where
  "rebalancing_loop df weights rebalance_frequency i [] s = Inr s"
| "rebalancing_loop df weights rebalance_frequency i ((date, r) # rest) s =
     ebind (rebalancing_step df weights rebalance_frequency i r s)
       (rebalancing_loop df weights rebalance_frequency (Suc i) rest)"

text \<open>The initial shares, bought at the first row's prices, before the loop starts.\<close>

definition initial_shares :: "prices \<Rightarrow> real dict \<Rightarrow> real \<Rightarrow> error + real dict" where
  "initial_shares df weights initial_investment =
     emap (\<lambda>(stock, amount). ebind (iloc0 df stock) (\<lambda>p0. Inr (stock, amount / p0)))
       (initial_investment_per_stock df weights initial_investment)"

text \<open>The loop state after the first \<open>k\<close> rows of the table.\<close>

definition valuation_after ::
  "prices \<Rightarrow> real dict \<Rightarrow> real \<Rightarrow> int \<Rightarrow> nat \<Rightarrow> error + valuation_state" where
  "valuation_after df weights initial_investment rebalance_frequency k =
     ebind (initial_shares df weights initial_investment) (\<lambda>shares0.
     rebalancing_loop df weights rebalance_frequency 0 (take k (rows df))
       \<lparr>shares = shares0, portfolio_values = []\<rparr>)"

definition calculate_portfolio_value_with_rebalancing ::
  "prices \<Rightarrow> real dict \<Rightarrow> real \<Rightarrow> int \<Rightarrow> error + series" where
  "calculate_portfolio_value_with_rebalancing df weights initial_investment rebalance_frequency =
     ebind (valuation_after df weights initial_investment rebalance_frequency (length (rows df)))
       (\<lambda>s. Inr (zip (map fst (rows df)) (portfolio_values s)))"


text \<open>The dict keys of a share or weight dict are all column labels of the table.\<close>

definition keys_in :: "prices \<Rightarrow> real dict \<Rightarrow> bool" where
  "keys_in df d = (\<forall>stock \<in> set (map fst d). stock \<in> set (columns df))"

subsection \<open>Example tables\<close>

definition one_day_table :: prices where
  "one_day_table = \<lparr>columns = [''A''], rows = [(''2024-01-02'', (\<lambda>stock. 50))]\<rparr>"

definition two_day_table :: prices where
  "two_day_table = \<lparr>columns = [''A''],
     rows = [(''2024-01-02'', (\<lambda>stock. 10)), (''2024-01-03'', (\<lambda>stock. 20))]\<rparr>"

definition four_day_table :: prices where
  "four_day_table = \<lparr>columns = [''A'', ''B''],
     rows = [(''2024-01-02'', (\<lambda>stock. if stock = ''A'' then 10 else 20)),
             (''2024-01-03'', (\<lambda>stock. if stock = ''A'' then 20 else 20)),
             (''2024-01-04'', (\<lambda>stock. if stock = ''A'' then 30 else 10)),
             (''2024-01-05'', (\<lambda>stock. if stock = ''A'' then 30 else 20))]\<rparr>"

section \<open>The trade simulator\<close>

text \<open>
  \<^verbatim>\<open>track_trades(df, initial_investment)\<close>. The state of the scan is the frame \<open>df\<close>, which
  the function writes to (the field \<open>dframe\<close>), and its local variables; \<open>units_traded\<close>
  is unbound (\<open>None\<close>) until the first entry. A record of the log is the tuple
  \<^verbatim>\<open>(trade_date, trade_price, trade_type, total_trade_pnl)\<close>.
\<close>

type_synonym trade_log = "string \<times> float \<times> string \<times> float"

record simulation =
  dframe :: frame
  current_position :: "string option"
  entry_price :: float
  realized_balance :: float
  unrealized_pnl :: float
  trades_tally :: nat
  units_traded :: "float option"
  trade_logs :: "trade_log list"

text \<open>
  \<^verbatim>\<open>trade_logs[i] = (trade_logs[i][0], trade_logs[i][1], trade_type, trade_logs[i][3])\<close> on an
  entry, and with \<^verbatim>\<open>df.loc[df.index[i], 'total_trade_pnl']\<close> as last component on an exit.
\<close>

definition relabel :: "nat \<Rightarrow> string \<Rightarrow> trade_log list \<Rightarrow> error + trade_log list" where
  "relabel i trade_type logs =
     (if i < length logs
      then (case logs ! i of (date, price, _, pnl) \<Rightarrow> Inr (logs[i := (date, price, trade_type, pnl)]))
      else Inl IndexError)"

definition relabel_exit ::
  "nat \<Rightarrow> string \<Rightarrow> frame \<Rightarrow> trade_log list \<Rightarrow> error + trade_log list" where
  "relabel_exit i trade_type f logs =
     (if i < length logs
      then (case logs ! i of (date, price, _, _) \<Rightarrow>
              ebind (loc_float f i ''total_trade_pnl'') (\<lambda>total.
              Inr (logs[i := (date, price, trade_type, total)])))
      else Inl IndexError)"

text \<open>
  The branches that enter a position (\<open>side\<close> is \<^verbatim>\<open>'short'\<close> or \<^verbatim>\<open>'long'\<close>) and that exit one;
  \<open>price_move\<close> is \<^verbatim>\<open>entry_price - price\<close> for a short and \<^verbatim>\<open>price - entry_price\<close> for a
  long position.
\<close>

definition enter_position :: "nat \<Rightarrow> string \<Rightarrow> float \<Rightarrow> simulation \<Rightarrow> error + simulation" where
  "enter_position i side price s =
     (let s1 = s\<lparr>current_position := Some side,
                  entry_price := price,
                  dframe := set_loc (dframe s) i ''position'' (Obj (Some side))\<rparr>;
          s2 = s1\<lparr>units_traded := Some (fdiv (realized_balance s1) (entry_price s1))\<rparr>
      in ebind (relabel i (side @ ''_entry'') (trade_logs s2)) (\<lambda>logs.
         Inr (s2\<lparr>trade_logs := logs\<rparr>)))"

definition exit_position :: "nat \<Rightarrow> string \<Rightarrow> float \<Rightarrow> simulation \<Rightarrow> error + simulation" where
  "exit_position i side price_move s =
     (case units_traded s of
        None \<Rightarrow> Inl UnboundLocalError
      | Some units \<Rightarrow>
          (let pnl = fmul units price_move;
               s1 = s\<lparr>realized_balance := fadd (realized_balance s) pnl\<rparr>
           in ebind (loc_float (dframe s1) i ''total_trade_pnl'') (\<lambda>total.
              let s2 = s1\<lparr>dframe := set_loc (dframe s1) i ''total_trade_pnl'' (Flt (fadd total pnl)),
                           current_position := None,
                           trades_tally := trades_tally s1 + 1\<rparr>
              in ebind (relabel_exit i (side @ ''_exit'') (dframe s2) (trade_logs s2)) (\<lambda>logs.
                 Inr (s2\<lparr>trade_logs := logs\<rparr>)))))"

text \<open>
  The body of the loop at index \<open>i\<close>. \<open>mark_to_market\<close> is its first half: the four reads,
  the carry-forward of \<^verbatim>\<open>total_trade_pnl\<close>, the unrealized PnL and the record appended to the
  log. \<open>transition\<close> is the chain of \<^verbatim>\<open>if\<close> and \<^verbatim>\<open>elif\<close> that follows.
\<close>

definition mark_to_market ::
  "nat \<Rightarrow> simulation \<Rightarrow> error + (float \<times> float \<times> float \<times> float \<times> simulation)" where
  "mark_to_market i s =
     ebind (loc_float (dframe s) i ''portfolio_value'') (\<lambda>price.
     ebind (loc_float (dframe s) i ''ewma'') (\<lambda>ewma.
     ebind (loc_float (dframe s) i ''bollinger_upper'') (\<lambda>upper.
     ebind (loc_float (dframe s) i ''bollinger_lower'') (\<lambda>lower.
     ebind (if i > 0
            then ebind (loc (dframe s) (i - 1) ''total_trade_pnl'') (\<lambda>previous.
                 Inr (set_loc (dframe s) i ''total_trade_pnl'' previous))
            else Inr (set_loc (dframe s) i ''total_trade_pnl'' (Flt (Some 0)))) (\<lambda>df1.
     let unrealized =
           (if current_position s = Some ''short''
            then fdiv (fmul (realized_balance s) (fsub (entry_price s) price)) (entry_price s)
            else if current_position s = Some ''long''
            then fdiv (fmul (realized_balance s) (fsub price (entry_price s))) (entry_price s)
            else Some 0)
     in
     ebind (loc_float df1 i ''total_trade_pnl'') (\<lambda>total.
     Inr (price, ewma, upper, lower,
          s\<lparr>dframe := df1, unrealized_pnl := unrealized,
            trade_logs := trade_logs s @
              [(index df1 ! i, price, ''neither'', fadd total unrealized)]\<rparr>)))))))"

definition transition ::
  "nat \<Rightarrow> float \<Rightarrow> float \<Rightarrow> float \<Rightarrow> float \<Rightarrow> simulation \<Rightarrow> error + simulation" where
  "transition i price ewma upper lower s =
     (if current_position s = None \<and> fgt price upper then enter_position i ''short'' price s
      else if current_position s = None \<and> flt price lower then enter_position i ''long'' price s
      else if current_position s = Some ''short'' \<and> flt price ewma
        then exit_position i ''short'' (fsub (entry_price s) price) s
      else if current_position s = Some ''long'' \<and> fgt price ewma
        then exit_position i ''long'' (fsub price (entry_price s)) s
      else Inr s)"

definition track_step :: "nat \<Rightarrow> simulation \<Rightarrow> error + simulation" where
  "track_step i s =
     ebind (mark_to_market i s) (\<lambda>(price, ewma, upper, lower, s1).
     transition i price ewma upper lower s1)"

fun track_loop :: "nat list \<Rightarrow> simulation \<Rightarrow> error + simulation" where
  "track_loop [] s = Inr s"
| "track_loop (i # rest) s = ebind (track_step i s) (track_loop rest)"

text \<open>
  The statements before the loop: the three columns the function adds to \<open>df\<close>, the first
  cell of \<^verbatim>\<open>total_trade_pnl\<close> and the first record of the log; \<^verbatim>\<open>df.index[0]\<close> raises
  IndexError on a frame without rows.
\<close>

definition track_init :: "frame \<Rightarrow> real \<Rightarrow> error + simulation" where
  "track_init df0 initial_investment =
     (let df1 = assign_scalar df0 ''trade_pnl'' (Flt (Some 0));
          df2 = assign_scalar df1 ''total_trade_pnl'' (Flt (Some 0));
          df3 = assign_scalar df2 ''position'' (Obj None)
      in if index df3 = [] then Inl IndexError
         else (let df4 = set_loc df3 0 ''total_trade_pnl'' (Flt (Some initial_investment))
               in ebind (loc_float df4 0 ''portfolio_value'') (\<lambda>price0.
                  Inr \<lparr>dframe = df4, current_position = None, entry_price = Some 0,
                       realized_balance = Some initial_investment, unrealized_pnl = Some 0,
                       trades_tally = 0, units_traded = None,
                       trade_logs = [(index df4 ! 0, price0, ''neither'', Some initial_investment)]\<rparr>)))"

text \<open>
  \<open>track_after\<close> is the state when the loop \<^verbatim>\<open>for i in range(1, len(df))\<close> has run up to
  index \<open>k\<close> (exclusive); \<open>track_run\<close> is the state after the whole loop. The function
  returns \<^verbatim>\<open>(trade_logs, trades_tally)\<close>; \<open>track_trades_frame\<close> is the frame the caller holds
  after the call, and \<open>open_position_reported\<close> tells whether the last \<^verbatim>\<open>if\<close>,
  \<^verbatim>\<open>current_position == 'Open'\<close>, prints its message.
\<close>

definition track_after :: "frame \<Rightarrow> real \<Rightarrow> nat \<Rightarrow> error + simulation" where
  "track_after df0 initial_investment k =
     ebind (track_init df0 initial_investment) (track_loop [1..<k])"

definition track_run :: "frame \<Rightarrow> real \<Rightarrow> error + simulation" where
  "track_run df0 initial_investment = track_after df0 initial_investment (length (index df0))"

definition track_trades :: "frame \<Rightarrow> real \<Rightarrow> error + (trade_log list \<times> nat)" where
  "track_trades df0 initial_investment =
     ebind (track_run df0 initial_investment) (\<lambda>s. Inr (trade_logs s, trades_tally s))"

definition track_trades_frame :: "frame \<Rightarrow> real \<Rightarrow> error + frame" where
  "track_trades_frame df0 initial_investment =
     ebind (track_run df0 initial_investment) (\<lambda>s. Inr (dframe s))"

definition open_position_reported :: "frame \<Rightarrow> real \<Rightarrow> error + bool" where
  "open_position_reported df0 initial_investment =
     ebind (track_run df0 initial_investment) (\<lambda>s. Inr (current_position s = Some ''Open''))"

definition final_position :: "frame \<Rightarrow> real \<Rightarrow> error + string option" where
  "final_position df0 initial_investment =
     ebind (track_run df0 initial_investment) (\<lambda>s. Inr (current_position s))"

subsection \<open>Notions used in the properties\<close>

text \<open>
  The number of exit records of a log; two frames with the same index and the same
  columns under the given names; the invariant of the scan before index \<open>i\<close>; what a step
  may change in the frame; the columns the scan reads, and two states that differ at most
  in the other columns.
\<close>

definition exit_events :: "trade_log list \<Rightarrow> nat" where
  "exit_events logs =
     length (filter (\<lambda>(date, price, trade_type, pnl).
                       trade_type = ''long_exit'' \<or> trade_type = ''short_exit'') logs)"

definition same_on :: "string set \<Rightarrow> frame \<Rightarrow> frame \<Rightarrow> bool" where
  "same_on names f g = (index f = index g \<and> (\<forall>c \<in> names. column f c = column g c))"

definition scan_inv :: "nat \<Rightarrow> simulation \<Rightarrow> bool" where
  "scan_inv i s \<longleftrightarrow> length (trade_logs s) = i \<and> trades_tally s = exit_events (trade_logs s)
     \<and> current_position s \<in> {None, Some ''short'', Some ''long''}"

definition frame_kept :: "frame \<Rightarrow> frame \<Rightarrow> bool" where
  "frame_kept f g \<longleftrightarrow> index g = index f
     \<and> (\<forall>c. c \<noteq> ''total_trade_pnl'' \<and> c \<noteq> ''position'' \<longrightarrow> column g c = column f c)
     \<and> (\<forall>c. column f c \<noteq> None \<longrightarrow> column g c \<noteq> None)"

definition read_columns :: "string set" where
  "read_columns = {''portfolio_value'', ''ewma'', ''bollinger_upper'', ''bollinger_lower'',
                   ''total_trade_pnl''}"

definition sim_rel :: "simulation \<Rightarrow> simulation \<Rightarrow> bool" where
  "sim_rel a b \<longleftrightarrow> same_on read_columns (dframe a) (dframe b)
     \<and> current_position a = current_position b \<and> entry_price a = entry_price b
     \<and> realized_balance a = realized_balance b \<and> unrealized_pnl a = unrealized_pnl b
     \<and> trades_tally a = trades_tally b \<and> units_traded a = units_traded b
     \<and> trade_logs a = trade_logs b"

text \<open>
  A column of doubles with one cell per row; a frame as the band estimator returns it for
  a series that is not empty; and what holds of the state before index \<open>i\<close> in a run on
  such a frame.
\<close>

definition float_column :: "frame \<Rightarrow> string \<Rightarrow> bool" where
  "float_column f c \<longleftrightarrow>
     (\<exists>xs. column f c = Some xs \<and> length xs = length (index f) \<and> (\<forall>x \<in> set xs. \<exists>v. x = Flt v))"

definition band_frame :: "frame \<Rightarrow> bool" where
  "band_frame f \<longleftrightarrow> index f \<noteq> [] \<and> float_column f ''portfolio_value'' \<and> float_column f ''ewma''
     \<and> float_column f ''bollinger_upper'' \<and> float_column f ''bollinger_lower''"

definition run_ok :: "nat \<Rightarrow> simulation \<Rightarrow> bool" where
  "run_ok i s \<longleftrightarrow> (\<forall>c \<in> read_columns. float_column (dframe s) c)
     \<and> length (trade_logs s) = i
     \<and> (current_position s \<noteq> None \<longrightarrow> units_traded s \<noteq> None)"

subsection \<open>Example frames\<close>

text \<open>
  Four days with a short entry at 160 and its exit at 95, and two days that end with the
  short position open.
\<close>

definition scenario :: frame where
  "scenario = \<lparr>index = [''d0'', ''d1'', ''d2'', ''d3''],
     cols = [(''portfolio_value'', [Flt (Some 100), Flt (Some 160), Flt (Some 95), Flt (Some 130)]),
             (''ewma'', [Flt (Some 100), Flt (Some 140), Flt (Some 120), Flt (Some 125)]),
             (''bollinger_upper'', [Flt None, Flt (Some 150), Flt (Some 170), Flt (Some 180)]),
             (''bollinger_lower'', [Flt None, Flt (Some 90), Flt (Some 80), Flt (Some 70)])]\<rparr>"

definition open_short :: frame where
  "open_short = \<lparr>index = [''2024-01-02'', ''2024-01-03''],
     cols = [(''portfolio_value'', [Flt (Some 100), Flt (Some 160)]),
             (''ewma'', [Flt (Some 100), Flt (Some 130)]),
             (''bollinger_upper'', [Flt None, Flt (Some 150)]),
             (''bollinger_lower'', [Flt None, Flt (Some 110)])]\<rparr>"

section \<open>Properties of the valuation\<close>

lemma emap_Inr: "(\<And>x. x \<in> set xs \<Longrightarrow> f x = Inr (g x)) \<Longrightarrow> emap f xs = Inr (map g xs)"
proof (induction xs)
  case Nil
  then show ?case by simp
next
  case (Cons a xs)
  have "f a = Inr (g a)" by (rule Cons.prems) simp
  moreover have "emap f xs = Inr (map g xs)" by (rule Cons.IH) (simp add: Cons.prems)
  ultimately show ?case by simp
qed

lemma per_stock_columns:
  "(stock, amount) \<in> set (initial_investment_per_stock df weights iv) \<Longrightarrow> stock \<in> set (columns df)"
  by (auto simp: initial_investment_per_stock_def)

lemma initial_shares_rows:
  assumes "rows df = r0 # rest"
  shows "initial_shares df weights iv =
           Inr (map (\<lambda>(stock, amount). (stock, amount / snd r0 stock))
                  (initial_investment_per_stock df weights iv))"
  unfolding initial_shares_def
  by (rule emap_Inr) (auto simp: iloc0_def ebind_def assms dest: per_stock_columns)

lemma portfolio_value_of_Inr:
  assumes "\<And>stock held. (stock, held) \<in> set shs \<Longrightarrow> stock \<in> set (columns df)"
  shows "portfolio_value_of df r shs = Inr (sum_list (map (\<lambda>(stock, held). r stock * held) shs))"
proof -
  have "emap (\<lambda>(stock, held). ebind (row_get df r stock) (\<lambda>p. Inr (p * held))) shs
          = Inr (map (\<lambda>(stock, held). r stock * held) shs)"
    by (rule emap_Inr) (auto simp: row_get_def ebind_def dest: assms)
  then show ?thesis by (simp add: portfolio_value_of_def ebind_def)
qed

lemma no_rebalancing_value_Inr:
  assumes "rows df = r0 # rest"
  shows "no_rebalancing_value df (initial_investment_per_stock df weights iv) r =
           Inr (sum_list (map (\<lambda>(stock, amount). r stock * (amount / snd r0 stock))
                            (initial_investment_per_stock df weights iv)))"
proof -
  have "emap (\<lambda>(stock, amount).
                    ebind (row_get df r stock) (\<lambda>p.
                    ebind (iloc0 df stock) (\<lambda>p0. Inr (p * (amount / p0)))))
           (initial_investment_per_stock df weights iv)
          = Inr (map (\<lambda>(stock, amount). r stock * (amount / snd r0 stock))
                   (initial_investment_per_stock df weights iv))"
    by (rule emap_Inr) (auto simp: row_get_def iloc0_def ebind_def assms dest: per_stock_columns)
  then show ?thesis by (simp add: no_rebalancing_value_def ebind_def)
qed

lemma loop_no_rebalance:
  assumes "\<not> 0 < f" "\<And>stock held. (stock, held) \<in> set shs \<Longrightarrow> stock \<in> set (columns df)"
  shows "rebalancing_loop df weights f i rs \<lparr>shares = shs, portfolio_values = acc\<rparr> =
           Inr \<lparr>shares = shs, portfolio_values = acc @
                  map (\<lambda>(date, r). sum_list (map (\<lambda>(stock, held). r stock * held) shs)) rs\<rparr>"
proof (induction rs arbitrary: i acc)
  case Nil
  then show ?case by simp
next
  case (Cons a rs)
  obtain date r where a: "a = (date, r)" by (cases a)
  have pv: "portfolio_value_of df r shs = Inr (sum_list (map (\<lambda>(stock, held). r stock * held) shs))"
    by (rule portfolio_value_of_Inr) (rule assms(2))
  show ?case
    using assms(1)
    by (simp add: a rebalancing_step_def pv ebind_def Cons.IH)
qed

lemma periodic_zero_nonempty:
  assumes "rows df \<noteq> []"
  shows "\<exists>vs. calculate_portfolio_value_with_rebalancing df weights initial_investment 0 = Inr vs
            \<and> calculate_portfolio_value_no_rebalancing df weights initial_investment = Inr vs"
proof -
  obtain r0 rest where rws: "rows df = r0 # rest" using assms by (cases "rows df") auto
  let ?per = "initial_investment_per_stock df weights initial_investment"
  let ?sh = "map (\<lambda>(stock, amount). (stock, amount / snd r0 stock)) ?per"
  have cols: "\<And>stock held. (stock, held) \<in> set ?sh \<Longrightarrow> stock \<in> set (columns df)"
    by (auto dest: per_stock_columns)
  have lhs: "calculate_portfolio_value_with_rebalancing df weights initial_investment 0 =
      Inr (zip (map fst (rows df))
             (map (\<lambda>(date, r). sum_list (map (\<lambda>(stock, held). r stock * held) ?sh)) (rows df)))"
  proof -
    have "rebalancing_loop df weights 0 0 (rows df) \<lparr>shares = ?sh, portfolio_values = []\<rparr> =
           Inr \<lparr>shares = ?sh, portfolio_values = [] @
                  map (\<lambda>(date, r). sum_list (map (\<lambda>(stock, held). r stock * held) ?sh)) (rows df)\<rparr>"
      by (rule loop_no_rebalance) (use cols in auto)
    then show ?thesis
      by (simp add: calculate_portfolio_value_with_rebalancing_def valuation_after_def
        initial_shares_rows[OF rws] ebind_def)
  qed
  have rhs: "calculate_portfolio_value_no_rebalancing df weights initial_investment =
      Inr (map (\<lambda>(date, r). (date, sum_list (map (\<lambda>(stock, amount). r stock * (amount / snd r0 stock)) ?per)))
             (rows df))"
    unfolding calculate_portfolio_value_no_rebalancing_def Let_def
    by (rule emap_Inr) (auto simp: no_rebalancing_value_Inr[OF rws] ebind_def)
  have "zip (map fst rs) (map (\<lambda>(date, r). sum_list (map (\<lambda>(stock, held). r stock * held) ?sh)) rs)
      = map (\<lambda>(date, r). (date, sum_list (map (\<lambda>(stock, amount). r stock * (amount / snd r0 stock)) ?per))) rs" for rs
    by (induction rs) (auto simp: comp_def case_prod_unfold)
  then have "calculate_portfolio_value_with_rebalancing df weights initial_investment 0 =
      calculate_portfolio_value_no_rebalancing df weights initial_investment"
    unfolding lhs rhs by simp
  with rhs show ?thesis by simp
qed

text \<open>
  Claim C2. Whenever the valuation with periodic rebalancing at frequency 0 returns a
  value series, the valuation without rebalancing returns the same series, entry for
  entry at every date; and on every price table with at least one record both return,
  for every weight dict and every initial investment. (On a table without records the
  rebalancing valuation raises IndexError when it looks up the first price of a weighted
  column, before its loop; the other valuation returns the empty series.)
\<close>

theorem periodic_zero_is_no_rebalance:
  "(calculate_portfolio_value_with_rebalancing df weights initial_investment 0 = Inr vs \<longrightarrow>
      calculate_portfolio_value_no_rebalancing df weights initial_investment = Inr vs)
   \<and> (rows df \<noteq> [] \<longrightarrow>
        (\<exists>vs. calculate_portfolio_value_with_rebalancing df weights initial_investment 0 = Inr vs
            \<and> calculate_portfolio_value_no_rebalancing df weights initial_investment = Inr vs))"
proof (cases "rows df = []")
  case True
  have "vs = []"
    if "calculate_portfolio_value_with_rebalancing df weights initial_investment 0 = Inr vs"
    using that
    by (cases "valuation_after df weights initial_investment 0 (length (rows df))")
       (simp_all add: calculate_portfolio_value_with_rebalancing_def ebind_def True)
  moreover have "calculate_portfolio_value_no_rebalancing df weights initial_investment = Inr []"
    by (simp add: calculate_portfolio_value_no_rebalancing_def True)
  ultimately show ?thesis using True by auto
next
  case False
  from periodic_zero_nonempty[OF False, of weights initial_investment] show ?thesis by auto
qed

lemma keys_inD: "keys_in df d \<Longrightarrow> (stock, v) \<in> set d \<Longrightarrow> stock \<in> set (columns df)"
  by (force simp: keys_in_def)

lemma rebalance_Inr:
  assumes "keys_in df weights"
  shows "rebalance df weights r pv = Inr (map (\<lambda>(stock, weight). (stock, pv * weight / r stock)) weights)"
proof -
  have "emap (\<lambda>(stock, amount). ebind (row_get df r stock) (\<lambda>p. Inr (stock, amount / p)))
          (map (\<lambda>(stock, weight). (stock, pv * weight)) weights)
        = Inr (map (\<lambda>(stock, amount). (stock, amount / r stock))
             (map (\<lambda>(stock, weight). (stock, pv * weight)) weights))"
    by (rule emap_Inr) (use assms in \<open>auto simp: row_get_def ebind_def dest: keys_inD\<close>)
  then show ?thesis
    by (simp add: rebalance_def comp_def case_prod_unfold)
qed

lemma keys_in_rebalanced:
  "keys_in df weights \<Longrightarrow> keys_in df (map (\<lambda>(stock, weight). (stock, pv * weight / r stock)) weights)"
  by (auto simp: keys_in_def)

lemma rebalanced_value:
  fixes r :: "string \<Rightarrow> real" and weights :: "real dict"
  assumes "\<forall>stock \<in> set (map fst weights). r stock \<noteq> 0"
  shows "sum_list (map (\<lambda>(stock, held). r stock * held)
           (map (\<lambda>(stock, weight). (stock, pv * weight / r stock)) weights))
         = pv * sum_list (map snd weights)"
  using assms by (induction weights) (auto simp: distrib_left)

lemma step_cases:
  assumes "keys_in df (shares s)" "keys_in df weights"
  shows "rebalancing_step df weights f i r s =
     Inr \<lparr>shares = (if f > 0 \<and> int i mod f = 0 \<and> i \<noteq> 0
                     then map (\<lambda>(stock, weight). (stock,
                        sum_list (map (\<lambda>(stock, held). r stock * held) (shares s)) * weight / r stock)) weights
                     else shares s),
          portfolio_values = portfolio_values s @ [sum_list (map (\<lambda>(stock, held). r stock * held) (shares s))]\<rparr>"
proof -
  have pv: "portfolio_value_of df r (shares s) = Inr (sum_list (map (\<lambda>(stock, held). r stock * held) (shares s)))"
    by (rule portfolio_value_of_Inr) (use assms(1) in \<open>auto dest: keys_inD\<close>)
  show ?thesis
    by (simp add: rebalancing_step_def pv ebind_def rebalance_Inr[OF assms(2)])
qed

lemma step_keys:
  assumes "keys_in df (shares s)" "keys_in df weights" "rebalancing_step df weights f i r s = Inr s'"
  shows "keys_in df (shares s')" "length (portfolio_values s') = Suc (length (portfolio_values s))"
        "take (length (portfolio_values s)) (portfolio_values s') = portfolio_values s"
  using assms(3) unfolding step_cases[OF assms(1,2)]
  by (auto simp: keys_in_rebalanced assms(1,2) split: if_splits)

lemma loop_append:
  "rebalancing_loop df weights f i (xs @ ys) s =
     ebind (rebalancing_loop df weights f i xs s) (rebalancing_loop df weights f (i + length xs) ys)"
proof (induction xs arbitrary: i s)
  case Nil
  then show ?case by (simp add: ebind_def)
next
  case (Cons a xs)
  obtain date r where a: "a = (date, r)" by (cases a)
  show ?case
    by (cases "rebalancing_step df weights f i r s") (simp_all add: a ebind_def Cons.IH)
qed

lemma loop_keys:
  assumes "keys_in df (shares s)" "keys_in df weights"
  shows "\<exists>s'. rebalancing_loop df weights f i rs s = Inr s' \<and> keys_in df (shares s')
            \<and> length (portfolio_values s') = length (portfolio_values s) + length rs
            \<and> take (length (portfolio_values s)) (portfolio_values s') = portfolio_values s"
  using assms(1)
proof (induction rs arbitrary: i s)
  case Nil
  then show ?case by simp
next
  case (Cons a rs)
  obtain date r where a: "a = (date, r)" by (cases a)
  obtain s1 where s1: "rebalancing_step df weights f i r s = Inr s1"
    using step_cases[OF Cons.prems assms(2)] by blast
  note k = step_keys[OF Cons.prems assms(2) s1]
  from Cons.IH[OF k(1), of "Suc i"] obtain s' where
    s': "rebalancing_loop df weights f (Suc i) rs s1 = Inr s'" "keys_in df (shares s')"
       "length (portfolio_values s') = length (portfolio_values s1) + length rs"
       "take (length (portfolio_values s1)) (portfolio_values s') = portfolio_values s1"
    by blast
  have "take (length (portfolio_values s)) (portfolio_values s') =
        take (length (portfolio_values s)) (take (length (portfolio_values s1)) (portfolio_values s'))"
    by (simp add: k(2) min_def)
  also have "\<dots> = portfolio_values s" by (simp add: s'(4) k(3))
  finally show ?case
    by (simp add: a s1 ebind_def s' k(2))
qed

lemma initial_shares_keys:
  "initial_shares df weights iv = Inr shs \<Longrightarrow> keys_in df shs"
proof (cases "rows df")
  case Nil
  assume a: "initial_shares df weights iv = Inr shs"
  have "shs = []"
  proof (cases "initial_investment_per_stock df weights iv")
    case Nil
    with a show ?thesis by (simp add: initial_shares_def)
  next
    case (Cons p ps)
    obtain stock amount where p: "p = (stock, amount)" by (cases p)
    have "stock \<in> set (columns df)" using per_stock_columns[of stock amount df weights iv] Cons p by simp
    with a Cons p \<open>rows df = []\<close> show ?thesis
      by (simp add: initial_shares_def iloc0_def ebind_def)
  qed
  then show ?thesis by (simp add: keys_in_def)
next
  case (Cons r0 rest)
  assume "initial_shares df weights iv = Inr shs"
  then show ?thesis
    unfolding initial_shares_rows[OF Cons]
    by (auto simp: keys_in_def dest: per_stock_columns)
qed

lemma valuation_after_Suc:
  assumes "i < length (rows df)"
  shows "valuation_after df weights iv f (Suc i) =
           ebind (valuation_after df weights iv f i)
             (rebalancing_step df weights f i (snd (rows df ! i)))"
proof (cases "initial_shares df weights iv")
  case (Inl e)
  then show ?thesis by (simp add: valuation_after_def ebind_def)
next
  case (Inr shs)
  obtain d r where dr: "rows df ! i = (d, r)" by (cases "rows df ! i")
  have "take (Suc i) (rows df) = take i (rows df) @ [(d, r)]"
    using assms by (simp add: take_Suc_conv_app_nth dr)
  then have "rebalancing_loop df weights f 0 (take (Suc i) (rows df)) s =
     ebind (rebalancing_loop df weights f 0 (take i (rows df)) s)
       (rebalancing_loop df weights f i [(d, r)])" for s
    using loop_append[of df weights f 0 "take i (rows df)" "[(d, r)]" s] assms
    by (simp add: min_def)
  moreover have "rebalancing_loop df weights f i [(d, r)] = rebalancing_step df weights f i r"
    by (rule ext) (simp add: ebind_def split: sum.splits)
  ultimately show ?thesis by (simp add: valuation_after_def ebind_def Inr dr)
qed

lemma valuation_after_ok:
  assumes "rows df \<noteq> []" "keys_in df weights"
  shows "\<exists>s. valuation_after df weights iv f k = Inr s \<and> keys_in df (shares s)
            \<and> length (portfolio_values s) = min k (length (rows df))"
proof -
  obtain r0 rest where rws: "rows df = r0 # rest" using assms(1) by (cases "rows df") auto
  let ?sh = "map (\<lambda>(stock, amount). (stock, amount / snd r0 stock)) (initial_investment_per_stock df weights iv)"
  have k0: "keys_in df (shares \<lparr>shares = ?sh, portfolio_values = []\<rparr>)"
    using initial_shares_keys[of df weights iv ?sh] by (simp add: initial_shares_rows[OF rws])
  from loop_keys[OF k0 assms(2), of f 0 "take k (rows df)"]
  show ?thesis
    by (auto simp: valuation_after_def initial_shares_rows[OF rws] ebind_def min_def)
qed

lemma step_values:
  assumes "rebalancing_step df weights f i r s = Inr s'"
  shows "\<exists>pv. portfolio_value_of df r (shares s) = Inr pv \<and> portfolio_values s' = portfolio_values s @ [pv]"
  using assms
  by (auto simp: rebalancing_step_def ebind_def split: sum.splits)

lemma loop_prefix:
  assumes "rebalancing_loop df weights f i rs s = Inr t"
  shows "take (length (portfolio_values s)) (portfolio_values t) = portfolio_values s
       \<and> length (portfolio_values t) = length (portfolio_values s) + length rs"
  using assms
proof (induction rs arbitrary: i s)
  case Nil
  then show ?case by simp
next
  case (Cons a rs)
  obtain date r where a: "a = (date, r)" by (cases a)
  from Cons.prems obtain s1 where s1: "rebalancing_step df weights f i r s = Inr s1"
    and t: "rebalancing_loop df weights f (Suc i) rs s1 = Inr t"
    by (cases "rebalancing_step df weights f i r s") (auto simp: a ebind_def)
  from step_values[OF s1] obtain pv where pv: "portfolio_values s1 = portfolio_values s @ [pv]" by blast
  from Cons.IH[OF t] have ih: "take (length (portfolio_values s1)) (portfolio_values t) = portfolio_values s1"
    "length (portfolio_values t) = length (portfolio_values s1) + length rs" by simp_all
  have "take (length (portfolio_values s)) (portfolio_values t) =
        take (length (portfolio_values s)) (take (length (portfolio_values s1)) (portfolio_values t))"
    by (simp add: pv min_def)
  also have "\<dots> = take (length (portfolio_values s)) (portfolio_values s1)" by (simp only: ih(1))
  also have "\<dots> = portfolio_values s" by (simp add: pv)
  finally show ?case by (simp add: ih(2) pv a)
qed

lemma valuation_after_prefix:
  assumes "valuation_after df weights iv f k = Inr s" "valuation_after df weights iv f n = Inr t"
    "k \<le> n"
  shows "take (length (portfolio_values s)) (portfolio_values t) = portfolio_values s"
proof -
  obtain shs where shs: "initial_shares df weights iv = Inr shs"
    using assms(1) by (cases "initial_shares df weights iv") (auto simp: valuation_after_def ebind_def)
  let ?s0 = "\<lparr>shares = shs, portfolio_values = []\<rparr>"
  have sk: "rebalancing_loop df weights f 0 (take k (rows df)) ?s0 = Inr s"
    using assms(1) by (simp add: valuation_after_def shs ebind_def)
  have "take n (rows df) = take k (rows df) @ drop k (take n (rows df))"
    using assms(3) by (metis append_take_drop_id min.absorb1 take_take)
  then have "rebalancing_loop df weights f 0 (take n (rows df)) ?s0 =
      rebalancing_loop df weights f (0 + length (take k (rows df))) (drop k (take n (rows df))) s"
    using loop_append[of df weights f 0 "take k (rows df)" "drop k (take n (rows df))" ?s0]
    by (simp add: sk ebind_def)
  then have st: "rebalancing_loop df weights f (0 + length (take k (rows df))) (drop k (take n (rows df))) s = Inr t"
    using assms(2) by (simp add: valuation_after_def shs ebind_def)
  show ?thesis using loop_prefix[OF st] by simp
qed

lemma valuation_after_length:
  assumes "valuation_after df weights iv f k = Inr s"
  shows "length (portfolio_values s) = min k (length (rows df))"
proof -
  from assms obtain shs where "rebalancing_loop df weights f 0 (take k (rows df))
       \<lparr>shares = shs, portfolio_values = []\<rparr> = Inr s"
    by (cases "initial_shares df weights iv") (auto simp: valuation_after_def ebind_def)
  from loop_prefix[OF this] show ?thesis by (simp add: min_def)
qed

lemma recorded_value:
  assumes t: "valuation_after df weights iv f (length (rows df)) = Inr t"
    and s: "valuation_after df weights iv f k = Inr s"
    and s1: "valuation_after df weights iv f (Suc k) = Inr s1"
    and k: "k < length (rows df)"
  shows "portfolio_value_of df (snd (rows df ! k)) (shares s) = Inr (portfolio_values t ! k)"
proof -
  have "rebalancing_step df weights f k (snd (rows df ! k)) s = Inr s1"
    using s1 by (simp add: valuation_after_Suc[OF k] s ebind_def)
  from step_values[OF this] obtain pv where
    pv: "portfolio_value_of df (snd (rows df ! k)) (shares s) = Inr pv"
      "portfolio_values s1 = portfolio_values s @ [pv]" by blast
  have ls: "length (portfolio_values s) = k" using valuation_after_length[OF s] k by simp
  have "take (length (portfolio_values s1)) (portfolio_values t) = portfolio_values s1"
    by (rule valuation_after_prefix[OF s1 t]) (use k in simp)
  then have "take (Suc k) (portfolio_values t) = portfolio_values s @ [pv]"
    by (simp add: pv(2) ls)
  then have "take (Suc k) (portfolio_values t) ! k = pv"
    by (simp add: nth_append ls)
  then have "portfolio_values t ! k = pv" by simp
  with pv(1) show ?thesis by simp
qed

text \<open>
  Claim C10. At a rebalance index \<open>i\<close> (frequency positive, \<open>i mod frequency = 0\<close>,
  \<open>i \<noteq> 0\<close>) of a run whose weights sum to 1 and whose weighted instruments all have a
  nonzero price at that date: the run returns a value series \<open>vs\<close>; the value recorded at
  \<open>i\<close> is the worth, at the prices of \<open>i\<close>, of the shares held before the rebalance; the
  shares after it are \<open>value[i] * weight / price\<close> for every weighted instrument, and
  their worth at the prices of \<open>i\<close> is again \<open>value[i]\<close>. So the rebalance leaves the
  entry at its own index as it was; the new shares are first used at \<open>i + 1\<close>, where the
  recorded value is their worth at the prices of \<open>i + 1\<close>.
\<close>

theorem rebalance_keeps_value:
  fixes df :: prices and weights :: "real dict"
  assumes i: "i < length (rows df)"
    and due: "0 < rebalance_frequency" "int i mod rebalance_frequency = 0" "i \<noteq> 0"
    and one: "sum_list (map snd weights) = 1"
    and priced: "\<forall>stock \<in> set (map fst weights).
                   stock \<in> set (columns df) \<and> snd (rows df ! i) stock \<noteq> 0"
  shows "\<exists>vs s s'.
      calculate_portfolio_value_with_rebalancing df weights initial_investment rebalance_frequency = Inr vs
    \<and> valuation_after df weights initial_investment rebalance_frequency i = Inr s
    \<and> valuation_after df weights initial_investment rebalance_frequency (Suc i) = Inr s'
    \<and> portfolio_value_of df (snd (rows df ! i)) (shares s) = Inr (snd (vs ! i))
    \<and> shares s' = map (\<lambda>(stock, weight).
                      (stock, snd (vs ! i) * weight / snd (rows df ! i) stock)) weights
    \<and> portfolio_value_of df (snd (rows df ! i)) (shares s') = Inr (snd (vs ! i))
    \<and> (Suc i < length (rows df) \<longrightarrow>
         portfolio_value_of df (snd (rows df ! Suc i)) (shares s') = Inr (snd (vs ! Suc i)))"
proof -
  let ?f = rebalance_frequency and ?iv = initial_investment
  let ?r = "snd (rows df ! i)"
  have ne: "rows df \<noteq> []" using i by auto
  have kw: "keys_in df weights" using priced by (simp add: keys_in_def)
  obtain s where s: "valuation_after df weights ?iv ?f i = Inr s" "keys_in df (shares s)"
      "length (portfolio_values s) = i"
    using valuation_after_ok[OF ne kw, of ?iv ?f i] i by (auto simp: min_def)
  define pv where "pv = sum_list (map (\<lambda>(stock, held). ?r stock * held) (shares s))"
  define s' where "s' = \<lparr>shares = map (\<lambda>(stock, weight). (stock, pv * weight / ?r stock)) weights,
                          portfolio_values = portfolio_values s @ [pv]\<rparr>"
  have step: "rebalancing_step df weights ?f i ?r s = Inr s'"
    unfolding step_cases[OF s(2) kw] s'_def pv_def using due by simp
  have s'v: "valuation_after df weights ?iv ?f (Suc i) = Inr s'"
    by (simp add: valuation_after_Suc[OF i] s(1) ebind_def step)
  obtain t where t: "valuation_after df weights ?iv ?f (length (rows df)) = Inr t"
      "length (portfolio_values t) = length (rows df)"
    using valuation_after_ok[OF ne kw, of ?iv ?f "length (rows df)"] by auto
  have "take (length (portfolio_values s')) (portfolio_values t) = portfolio_values s'"
    by (rule valuation_after_prefix[OF s'v t(1)]) (use i in simp)
  then have "take (Suc i) (portfolio_values t) = portfolio_values s @ [pv]"
    by (simp add: s'_def s(3))
  then have "take (Suc i) (portfolio_values t) ! i = pv"
    by (simp add: nth_append s(3))
  then have ti: "portfolio_values t ! i = pv" by simp
  define vs where "vs = zip (map fst (rows df)) (portfolio_values t)"
  have vs: "calculate_portfolio_value_with_rebalancing df weights ?iv ?f = Inr vs"
    by (simp add: calculate_portfolio_value_with_rebalancing_def t(1) ebind_def vs_def)
  have vsi: "snd (vs ! i) = pv"
    using i t(2) by (simp add: vs_def ti)
  have old: "portfolio_value_of df ?r (shares s) = Inr pv"
    unfolding pv_def by (rule portfolio_value_of_Inr) (use s(2) in \<open>auto dest: keys_inD\<close>)
  have nz: "\<forall>stock \<in> set (map fst weights). ?r stock \<noteq> 0" using priced by simp
  have "portfolio_value_of df ?r (shares s') =
          Inr (sum_list (map (\<lambda>(stock, held). ?r stock * held) (shares s')))"
    by (rule portfolio_value_of_Inr) (use kw in \<open>auto simp: s'_def dest: keys_inD\<close>)
  also have "sum_list (map (\<lambda>(stock, held). ?r stock * held) (shares s')) = pv * sum_list (map snd weights)"
    unfolding s'_def using rebalanced_value[OF nz, of pv] by simp
  finally have new: "portfolio_value_of df ?r (shares s') = Inr pv" by (simp add: one)
  have nxt: "portfolio_value_of df (snd (rows df ! Suc i)) (shares s') = Inr (snd (vs ! Suc i))"
    if n: "Suc i < length (rows df)"
  proof -
    obtain s2 where s2: "valuation_after df weights ?iv ?f (Suc (Suc i)) = Inr s2"
      using valuation_after_ok[OF ne kw, of ?iv ?f "Suc (Suc i)"] by auto
    have "portfolio_value_of df (snd (rows df ! Suc i)) (shares s') = Inr (portfolio_values t ! Suc i)"
      by (rule recorded_value[OF t(1) s'v s2 n])
    moreover have "snd (vs ! Suc i) = portfolio_values t ! Suc i"
      using n t(2) by (simp add: vs_def)
    ultimately show ?thesis by simp
  qed
  have shs: "shares s' = map (\<lambda>(stock, weight). (stock, snd (vs ! i) * weight / ?r stock)) weights"
    by (simp add: s'_def vsi)
  from vs s(1) s'v old new nxt shs show ?thesis
    unfolding vsi[symmetric] by blast
qed

text \<open>
  Claim C5, as amended. On a price table with exactly one record the valuation does not
  fail: without rebalancing it returns a value series with one entry, at the date of
  that record, and with rebalancing, at any frequency, it returns the same series. The
  program has no check of the number of records and no error for too few of them.
\<close>

theorem single_record_valuation:
  assumes "rows df = [(date, r)]"
  shows "calculate_portfolio_value_no_rebalancing df weights initial_investment =
           Inr [(date, sum_list (map (\<lambda>(stock, amount). r stock * (amount / r stock))
                                  (initial_investment_per_stock df weights initial_investment)))]
       \<and> calculate_portfolio_value_with_rebalancing df weights initial_investment rebalance_frequency =
           calculate_portfolio_value_no_rebalancing df weights initial_investment"
proof -
  let ?per = "initial_investment_per_stock df weights initial_investment"
  let ?sh = "map (\<lambda>(stock, amount). (stock, amount / r stock)) ?per"
  have a: "calculate_portfolio_value_no_rebalancing df weights initial_investment =
           Inr [(date, sum_list (map (\<lambda>(stock, amount). r stock * (amount / r stock)) ?per))]"
    using no_rebalancing_value_Inr[OF assms, of weights initial_investment r]
    by (simp add: calculate_portfolio_value_no_rebalancing_def assms ebind_def)
  have k: "keys_in df ?sh" by (auto simp: keys_in_def dest: per_stock_columns)
  have pv: "portfolio_value_of df r ?sh = Inr (sum_list (map (\<lambda>(stock, held). r stock * held) ?sh))"
    by (rule portfolio_value_of_Inr) (auto dest: per_stock_columns)
  have "sum_list (map (\<lambda>(stock, held). r stock * held) ?sh) =
        sum_list (map (\<lambda>(stock, amount). r stock * (amount / r stock)) ?per)"
    by (simp add: comp_def case_prod_unfold)
  then have b: "calculate_portfolio_value_with_rebalancing df weights initial_investment rebalance_frequency =
           Inr [(date, sum_list (map (\<lambda>(stock, amount). r stock * (amount / r stock)) ?per))]"
    using initial_shares_rows[OF assms, of weights initial_investment]
    by (simp add: calculate_portfolio_value_with_rebalancing_def valuation_after_def assms
        ebind_def rebalancing_step_def pv)
  from a b show ?thesis by simp
qed

lemma empty_table_no_rebalancing:
  "rows df = [] \<Longrightarrow> calculate_portfolio_value_no_rebalancing df weights initial_investment = Inr []"
  by (simp add: calculate_portfolio_value_no_rebalancing_def)


theorem periodic_zero_witness:
  "calculate_portfolio_value_with_rebalancing two_day_table [(''A'', 1/2), (''B'', 1/2)] 1000 0 =
     Inr [(''2024-01-02'', 500), (''2024-01-03'', 1000)]
   \<and> calculate_portfolio_value_no_rebalancing two_day_table [(''A'', 1/2), (''B'', 1/2)] 1000 =
     Inr [(''2024-01-02'', 500), (''2024-01-03'', 1000)]"
proof -
  have "calculate_portfolio_value_with_rebalancing two_day_table [(''A'', 1/2), (''B'', 1/2)] 1000 0 =
          Inr [(''2024-01-02'', 500), (''2024-01-03'', 1000)]"
    by (simp add: calculate_portfolio_value_with_rebalancing_def valuation_after_def
        initial_shares_def two_day_table_def initial_investment_per_stock_def rebalancing_step_def
        portfolio_value_of_def ebind_def row_get_def iloc0_def)
  with periodic_zero_is_no_rebalance[of two_day_table "[(''A'', 1/2), (''B'', 1/2)]" 1000
      "[(''2024-01-02'', 500), (''2024-01-03'', 1000)]"]
  show ?thesis by simp
qed

text \<open>The table without records: only the rebalancing valuation raises.\<close>

lemma empty_table_valuations:
  "calculate_portfolio_value_with_rebalancing \<lparr>columns = [''A''], rows = []\<rparr> [(''A'', 1)] 1000 0 =
     Inl IndexError
   \<and> calculate_portfolio_value_no_rebalancing \<lparr>columns = [''A''], rows = []\<rparr> [(''A'', 1)] 1000 =
     Inr []"
  by (simp add: calculate_portfolio_value_with_rebalancing_def valuation_after_def
      initial_shares_def initial_investment_per_stock_def ebind_def iloc0_def
      calculate_portfolio_value_no_rebalancing_def)

theorem single_record_witness:
  "rows one_day_table = [(''2024-01-02'', (\<lambda>stock. 50))] \<and>
   calculate_portfolio_value_no_rebalancing one_day_table [(''A'', 1)] 1000 = Inr [(''2024-01-02'', 1000)] \<and>
   calculate_portfolio_value_with_rebalancing one_day_table [(''A'', 1)] 1000 5 = Inr [(''2024-01-02'', 1000)]"
proof -
  have r: "rows one_day_table = [(''2024-01-02'', (\<lambda>stock. 50))]" by (simp add: one_day_table_def)
  show ?thesis
    using single_record_valuation[OF r, of "[(''A'', 1)]" 1000 5] r
    by (simp add: initial_investment_per_stock_def one_day_table_def)
qed

text \<open>
  Against claim C5 as stated: a table with one record, and both valuations return a
  value series, no error.
\<close>

theorem single_record_returns:
  "length (rows one_day_table) = 1 \<and>
   calculate_portfolio_value_no_rebalancing one_day_table [(''A'', 1)] 1000 = Inr [(''2024-01-02'', 1000)] \<and>
   calculate_portfolio_value_with_rebalancing one_day_table [(''A'', 1)] 1000 1 = Inr [(''2024-01-02'', 1000)]"
  by (simp add: calculate_portfolio_value_no_rebalancing_def calculate_portfolio_value_with_rebalancing_def
      valuation_after_def initial_shares_def one_day_table_def initial_investment_per_stock_def
      no_rebalancing_value_def rebalancing_step_def portfolio_value_of_def ebind_def row_get_def iloc0_def)

text \<open>
  Claim C3 at the weights \<open>{A: 0.5, B: 0.5}\<close> on a table with the single column \<open>A\<close>,
  rebalanced daily: the initial allocation leaves \<open>B\<close> out, as the claim says, but the
  rebalance at index 1 runs over every weight and looks up the price of \<open>B\<close>: the
  valuation raises KeyError instead of recomputing the shares of the retained
  instruments.
\<close>

theorem rebalance_absent_instrument_raises:
  "initial_shares two_day_table [(''A'', 1/2), (''B'', 1/2)] 1000 = Inr [(''A'', 50)] \<and>
   calculate_portfolio_value_with_rebalancing two_day_table [(''A'', 1/2), (''B'', 1/2)] 1000 1 =
     Inl KeyError"
  by (simp add: calculate_portfolio_value_with_rebalancing_def valuation_after_def initial_shares_def
      two_day_table_def initial_investment_per_stock_def rebalancing_step_def rebalance_def
      portfolio_value_of_def ebind_def row_get_def iloc0_def)

theorem rebalance_keeps_value_witness:
  "(2::nat) < length (rows four_day_table) \<and> (0::int) < 2 \<and> int 2 mod 2 = 0 \<and> (2::nat) \<noteq> 0 \<and>
   sum_list (map snd [(''A'', 1/2), (''B'', 1/2::real)]) = 1 \<and>
   ''A'' \<in> set (columns four_day_table) \<and> snd (rows four_day_table ! 2) ''A'' = 30 \<and>
   ''B'' \<in> set (columns four_day_table) \<and> snd (rows four_day_table ! 2) ''B'' = 10 \<and>
   (\<exists>vs s s'.
      calculate_portfolio_value_with_rebalancing four_day_table [(''A'', 1/2), (''B'', 1/2)] 1000 2 = Inr vs
    \<and> valuation_after four_day_table [(''A'', 1/2), (''B'', 1/2)] 1000 2 2 = Inr s
    \<and> valuation_after four_day_table [(''A'', 1/2), (''B'', 1/2)] 1000 2 (Suc 2) = Inr s'
    \<and> portfolio_value_of four_day_table (snd (rows four_day_table ! 2)) (shares s) = Inr (snd (vs ! 2))
    \<and> shares s' = map (\<lambda>(stock, weight).
                      (stock, snd (vs ! 2) * weight / snd (rows four_day_table ! 2) stock))
                    [(''A'', 1/2), (''B'', 1/2)]
    \<and> portfolio_value_of four_day_table (snd (rows four_day_table ! 2)) (shares s') = Inr (snd (vs ! 2))
    \<and> portfolio_value_of four_day_table (snd (rows four_day_table ! Suc 2)) (shares s') =
        Inr (snd (vs ! Suc 2)))"
proof -
  have a: "(2::nat) < length (rows four_day_table)" by (simp add: four_day_table_def)
  have b: "(0::int) < 2" "int 2 mod 2 = 0" "(2::nat) \<noteq> 0" by simp_all
  have c: "sum_list (map snd [(''A'', 1/2), (''B'', 1/2::real)]) = 1" by simp
  have d: "\<forall>stock \<in> set (map fst [(''A'', 1/2), (''B'', 1/2::real)]).
      stock \<in> set (columns four_day_table) \<and> snd (rows four_day_table ! 2) stock \<noteq> 0"
    by (simp add: four_day_table_def)
  have e: "''A'' \<in> set (columns four_day_table) \<and> snd (rows four_day_table ! 2) ''A'' = 30 \<and>
   ''B'' \<in> set (columns four_day_table) \<and> snd (rows four_day_table ! 2) ''B'' = 10"
    by (simp add: four_day_table_def)
  have f: "Suc 2 < length (rows four_day_table)" by (simp add: four_day_table_def)
  show ?thesis
    using rebalance_keeps_value[OF a b c d, of 1000] a b c e f by blast
qed

section \<open>Properties of the band estimator\<close>

lemma ewm_alpha_one: "ewm_alpha 1 = 1/2"
  by (simp add: ewm_alpha_def)

lemma ewm_alpha_range:
  assumes "0 < h"
  shows "0 < ewm_alpha h" "ewm_alpha h < 1"
proof -
  have "ln (1/2) / real_of_int h < 0" using assms by (simp add: divide_neg_pos)
  then have "exp (ln (1/2) / real_of_int h) < 1" by simp
  then show "0 < ewm_alpha h" by (simp add: ewm_alpha_def)
  show "ewm_alpha h < 1" by (simp add: ewm_alpha_def)
qed

lemma ewm_alpha_halflife:
  assumes "0 < h"
  shows "(1 - ewm_alpha h) ^ nat h = 1/2"
proof -
  have "(1 - ewm_alpha h) ^ nat h = exp (real (nat h) * (ln (1/2) / real_of_int h))"
    using exp_of_nat_mult[of "nat h" "ln (1/2) / real_of_int h"] by (simp add: ewm_alpha_def)
  also have "real (nat h) * (ln (1/2) / real_of_int h) = ln (1/2)"
    using assms by simp
  finally show ?thesis by simp
qed

lemma sum_shift_weighted:
  fixes d :: real
  shows "(\<Sum>j\<le>Suc k. d ^ (Suc k - j) * (x # xs) ! j) = d ^ Suc k * x + (\<Sum>j\<le>k. d ^ (k - j) * xs ! j)"
  by (simp add: sum.atMost_Suc_shift del: sum.atMost_Suc)

lemma sum_shift_weights:
  fixes d :: real
  shows "(\<Sum>j\<le>Suc k. d ^ (Suc k - j)) = d ^ Suc k + (\<Sum>j\<le>k. d ^ (k - j))"
  by (simp add: sum.atMost_Suc_shift del: sum.atMost_Suc)

lemma weights_pos:
  fixes d :: real
  assumes "0 \<le> d"
  shows "0 < (\<Sum>j\<le>k. d ^ (k - j))"
proof -
  have "(\<Sum>j\<le>k. d ^ (k - j)) = (\<Sum>j<k. d ^ (k - j)) + d ^ (k - k)"
    by (simp add: lessThan_Suc_atMost[symmetric] del: sum.lessThan_Suc)
       (metis (no_types) lessThan_Suc_atMost sum.lessThan_Suc diff_self_eq_0 power_0)
  moreover have "0 \<le> (\<Sum>j<k. d ^ (k - j))" using assms by (simp add: sum_nonneg)
  ultimately show ?thesis by simp
qed

lemma ewm_loop_length: "length (ewm_loop a w W xs) = length xs"
  by (induction xs arbitrary: w W) (simp_all add: Let_def)

lemma ewm_loop_nth:
  assumes "a \<le> 1" "0 < W" "k < length xs"
  shows "ewm_loop a (S / W) W xs ! k =
           ((1 - a) ^ Suc k * S + (\<Sum>j\<le>k. (1 - a) ^ (k - j) * xs ! j)) /
           ((1 - a) ^ Suc k * W + (\<Sum>j\<le>k. (1 - a) ^ (k - j)))"
  using assms(2,3)
proof (induction xs arbitrary: S W k)
  case Nil
  then show ?case by simp
next
  case (Cons cur xs)
  let ?d = "1 - a"
  have d: "0 \<le> ?d" using assms(1) by simp
  let ?W' = "W * ?d + 1" and ?S' = "?d * S + cur"
  have W': "0 < ?W'" using d Cons.prems(1) by (simp add: add_nonneg_pos)
  have w1: "(if S / W \<noteq> cur then (W * ?d * (S / W) + 1 * cur) / (W * ?d + 1) else S / W) = ?S' / ?W'"
  proof (cases "S / W = cur")
    case True
    then have "S = cur * W" using Cons.prems(1) by (simp add: field_simps)
    then have "?S' = cur * ?W'" by (simp add: algebra_simps)
    then have "?S' / ?W' = cur" using W' by simp
    with True show ?thesis by simp
  next
    case False
    have "W * ?d * (S / W) = ?d * S" using Cons.prems(1) by simp
    with False show ?thesis by simp
  qed
  have unfold: "ewm_loop a (S / W) W (cur # xs) = (?S' / ?W') # ewm_loop a (?S' / ?W') ?W' xs"
    by (simp only: ewm_loop.simps Let_def w1)
  show ?case
  proof (cases k)
    case 0
    have "ewm_loop a (S / W) W (cur # xs) ! 0 = ?S' / ?W'" by (subst unfold) simp
    then show ?thesis by (simp add: 0 algebra_simps)
  next
    case (Suc k')
    then have k': "k' < length xs" using Cons.prems(2) by simp
    have "ewm_loop a (S / W) W (cur # xs) ! k = ewm_loop a (?S' / ?W') ?W' xs ! k'"
      unfolding Suc by (subst unfold) simp
    also have "\<dots> = (?d ^ Suc k' * ?S' + (\<Sum>j\<le>k'. ?d ^ (k' - j) * xs ! j)) /
           (?d ^ Suc k' * ?W' + (\<Sum>j\<le>k'. ?d ^ (k' - j)))"
      by (rule Cons.IH[OF W' k'])
    also have "?d ^ Suc k' * ?S' + (\<Sum>j\<le>k'. ?d ^ (k' - j) * xs ! j)
        = ?d ^ Suc k * S + (\<Sum>j\<le>k. ?d ^ (k - j) * (cur # xs) ! j)"
      unfolding Suc sum_shift_weighted by (simp add: algebra_simps)
    also have "?d ^ Suc k' * ?W' + (\<Sum>j\<le>k'. ?d ^ (k' - j))
        = ?d ^ Suc k * W + (\<Sum>j\<le>k. ?d ^ (k - j))"
      unfolding Suc sum_shift_weights by (simp add: algebra_simps)
    finally show ?thesis .
  qed
qed

lemma ewm_mean_length: "length (ewm_mean a vals) = length vals"
  by (cases vals) (simp_all add: ewm_mean_def ewm_loop_length)

lemma ewm_mean_nth:
  assumes "a \<le> 1" "t < length vals"
  shows "ewm_mean a vals ! t = weighted_mean (1 - a) vals t"
proof (cases vals)
  case Nil
  with assms show ?thesis by simp
next
  case (Cons v rest)
  show ?thesis
  proof (cases t)
    case 0
    then show ?thesis by (simp add: Cons ewm_mean_def weighted_mean_def)
  next
    case (Suc k)
    then have k: "k < length rest" using assms(2) Cons by simp
    have "ewm_mean a vals ! t = ewm_loop a (v / 1) 1 rest ! k"
      by (simp add: Cons ewm_mean_def Suc)
    also have "\<dots> = ((1 - a) ^ Suc k * v + (\<Sum>j\<le>k. (1 - a) ^ (k - j) * rest ! j)) /
           ((1 - a) ^ Suc k * 1 + (\<Sum>j\<le>k. (1 - a) ^ (k - j)))"
      by (rule ewm_loop_nth[OF assms(1) _ k]) simp
    also have "\<dots> = weighted_mean (1 - a) vals t"
      unfolding weighted_mean_def Suc Cons sum_shift_weighted sum_shift_weights by simp
    finally show ?thesis .
  qed
qed

lemma bands_with_std_dev_index: "index (bands_with_std_dev pvs h) = map fst pvs"
  by (simp add: bands_with_std_dev_def assign_def Let_def)

lemma bands_with_std_dev_cols:
  "cols (bands_with_std_dev pvs h) =
     [(''portfolio_value'', map (\<lambda>v. Flt (Some v)) (map snd pvs)),
      (''ewma'', map Flt (map Some (ewm_mean (ewm_alpha h) (map snd pvs)))),
      (''std_dev'', map Flt (rolling_std (nat h) (map snd pvs))),
      (''bollinger_upper'', map Flt (map2 fadd (map Some (ewm_mean (ewm_alpha h) (map snd pvs)))
          (map (fmul (Some 2)) (rolling_std (nat h) (map snd pvs))))),
      (''bollinger_lower'', map Flt (map2 fsub (map Some (ewm_mean (ewm_alpha h) (map snd pvs)))
          (map (fmul (Some 2)) (rolling_std (nat h) (map snd pvs)))))]"
  by (simp add: bands_with_std_dev_def assign_def Let_def)

lemma rolling_std_length: "length (rolling_std w vals) = length vals"
  by (simp add: rolling_std_def)

lemma rolling_std_nth:
  assumes "t < length vals"
  shows "rolling_std w vals ! t =
           (if t + 1 < w then None else sample_std (take w (drop (t + 1 - w) vals)))"
  using assms by (simp add: rolling_std_def)

lemma rolling_std_defined:
  assumes "t < length vals"
  shows "rolling_std w vals ! t = None \<longleftrightarrow> t + 1 < w \<or> w \<le> 1"
proof (cases "t + 1 < w")
  case True
  then show ?thesis by (simp add: rolling_std_nth[OF assms])
next
  case False
  then have "length (take w (drop (t + 1 - w) vals)) = w" using assms by simp
  then have "sample_std (take w (drop (t + 1 - w) vals)) = None \<longleftrightarrow> w \<le> 1"
    by (simp add: sample_std_def Let_def)
  with False show ?thesis by (simp add: rolling_std_nth[OF assms])
qed

lemma add_ewma_bollinger_bands_frame:
  assumes "0 < h"
  shows "add_ewma_bollinger_bands pvs h =
     Inr \<lparr>index = map fst pvs,
          cols = [(''portfolio_value'', map (\<lambda>v. Flt (Some v)) (map snd pvs)),
      (''ewma'', map Flt (map Some (ewm_mean (ewm_alpha h) (map snd pvs)))),
      (''bollinger_upper'', map Flt (map2 fadd (map Some (ewm_mean (ewm_alpha h) (map snd pvs)))
          (map (fmul (Some 2)) (rolling_std (nat h) (map snd pvs))))),
      (''bollinger_lower'', map Flt (map2 fsub (map Some (ewm_mean (ewm_alpha h) (map snd pvs)))
          (map (fmul (Some 2)) (rolling_std (nat h) (map snd pvs)))))]\<rparr>"
  using assms
  by (simp add: add_ewma_bollinger_bands_def drop_columns_def bands_with_std_dev_cols
      bands_with_std_dev_index)

lemma weighted_mean_0: "weighted_mean d vals 0 = vals ! 0"
  by (simp add: weighted_mean_def)

text \<open>
  Claim C1, as amended. For every value series and every positive halflife the band
  estimator returns a frame whose \<open>ewma\<close> column starts at the first value and is, at every
  index \<open>t\<close>, the weighted mean of the values up to \<open>t\<close> with the weights
  \<open>(1 - alpha) ^ (t - i)\<close>, where \<open>(1 - alpha) ^ halflife = 1/2\<close>. This is the adjusted
  mean of pandas, not the recursion \<open>alpha * value[t] + (1 - alpha) * ewma[t - 1]\<close>.
\<close>

theorem ewma_is_adjusted_mean:
  assumes "0 < halflife_days"
  shows "\<exists>f. add_ewma_bollinger_bands pvs halflife_days = Inr f
      \<and> (1 - ewm_alpha halflife_days) ^ nat halflife_days = 1/2
      \<and> (pvs \<noteq> [] \<longrightarrow> loc f 0 ''ewma'' = Inr (Flt (Some (snd (pvs ! 0)))))
      \<and> (\<forall>t < length pvs. loc f t ''ewma'' =
            Inr (Flt (Some (weighted_mean (1 - ewm_alpha halflife_days) (map snd pvs) t))))"
proof -
  let ?h = halflife_days
  let ?a = "ewm_alpha ?h"
  have a1: "?a \<le> 1" using ewm_alpha_range(2)[OF assms] by simp
  have nth: "loc \<lparr>index = map fst pvs,
          cols = [(''portfolio_value'', map (\<lambda>v. Flt (Some v)) (map snd pvs)),
      (''ewma'', map Flt (map Some (ewm_mean ?a (map snd pvs)))),
      (''bollinger_upper'', U), (''bollinger_lower'', L)]\<rparr> t ''ewma''
     = Inr (Flt (Some (weighted_mean (1 - ?a) (map snd pvs) t)))" if "t < length pvs" for t U L
    using that ewm_mean_nth[OF a1, of t "map snd pvs"]
    by (simp add: loc_def column_def ewm_mean_length)
  have zero: "weighted_mean (1 - ?a) (map snd pvs) 0 = snd (pvs ! 0)" if "pvs \<noteq> []"
    using that by (simp add: weighted_mean_0)
  show ?thesis
    unfolding add_ewma_bollinger_bands_frame[OF assms]
    using nth zero ewm_alpha_halflife[OF assms] 
    by (intro exI conjI) (auto simp del: map_map)
qed

lemma loc_nth:
  assumes "map_of cs c = Some xs" "t < length ix" "t < length xs"
  shows "loc \<lparr>index = ix, cols = cs\<rparr> t c = Inr (xs ! t)"
  using assms by (simp add: loc_def column_def)

text \<open>
  Claim C6, as amended. For a positive halflife and an index \<open>t\<close> of the series: the
  rolling standard deviation at \<open>t\<close> is undefined (NaN) exactly when
  \<open>t < halflife - 1\<close> or the halflife is 1, where the window holds a single value and
  the sample deviation does not exist; the upper and lower bands of the returned frame
  are \<open>ewma[t] + 2 * std[t]\<close> and \<open>ewma[t] - 2 * std[t]\<close>, and NaN exactly when the
  deviation is.
\<close>

theorem bands_defined_from_window:
  assumes "0 < halflife_days" "t < length pvs"
  shows "\<exists>f e s. add_ewma_bollinger_bands pvs halflife_days = Inr f
      \<and> loc (bands_with_std_dev pvs halflife_days) t ''ewma'' = Inr (Flt (Some e))
      \<and> loc (bands_with_std_dev pvs halflife_days) t ''std_dev'' = Inr (Flt s)
      \<and> (s = None \<longleftrightarrow> t + 1 < nat halflife_days \<or> halflife_days = 1)
      \<and> loc f t ''ewma'' = Inr (Flt (Some e))
      \<and> loc f t ''bollinger_upper'' = Inr (Flt (map_option (\<lambda>x. e + 2 * x) s))
      \<and> loc f t ''bollinger_lower'' = Inr (Flt (map_option (\<lambda>x. e - 2 * x) s))"
proof -
  let ?h = halflife_days
  let ?vals = "map snd pvs"
  let ?E = "ewm_mean (ewm_alpha ?h) ?vals"
  let ?S = "rolling_std (nat ?h) ?vals"
  have t: "t < length ?vals" using assms(2) by simp
  have lE: "length ?E = length pvs" by (simp add: ewm_mean_length)
  have lS: "length ?S = length pvs" by (simp add: rolling_std_length)
  have sdef: "?S ! t = None \<longleftrightarrow> t + 1 < nat ?h \<or> ?h = 1"
    using rolling_std_defined[OF t, of "nat ?h"] assms(1) by auto
  have up: "map2 fadd (map Some ?E) (map (fmul (Some 2)) ?S) ! t = map_option (\<lambda>x. ?E ! t + 2 * x) (?S ! t)"
    using assms(2) lE lS by (cases "?S ! t") (simp_all add: fadd_def fmul_def)
  have lo: "map2 fsub (map Some ?E) (map (fmul (Some 2)) ?S) ! t = map_option (\<lambda>x. ?E ! t - 2 * x) (?S ! t)"
    using assms(2) lE lS by (cases "?S ! t") (simp_all add: fsub_def fmul_def)
  have b1: "loc (bands_with_std_dev pvs ?h) t ''ewma'' = Inr (Flt (Some (?E ! t)))"
    using assms(2) lE
    by (simp add: loc_def column_def bands_with_std_dev_cols bands_with_std_dev_index del: map_map)
  have b2: "loc (bands_with_std_dev pvs ?h) t ''std_dev'' = Inr (Flt (?S ! t))"
    using assms(2) lS
    by (simp add: loc_def column_def bands_with_std_dev_cols bands_with_std_dev_index del: map_map)
  let ?f = "\<lparr>index = map fst pvs,
          cols = [(''portfolio_value'', map (\<lambda>v. Flt (Some v)) (map snd pvs)),
      (''ewma'', map Flt (map Some ?E)),
      (''bollinger_upper'', map Flt (map2 fadd (map Some ?E) (map (fmul (Some 2)) ?S))),
      (''bollinger_lower'', map Flt (map2 fsub (map Some ?E) (map (fmul (Some 2)) ?S)))]\<rparr>"
  have f1: "loc ?f t ''ewma'' = Inr (Flt (Some (?E ! t)))"
    using assms(2) lE by (simp add: loc_def column_def del: map_map)
  have f2: "loc ?f t ''bollinger_upper'' = Inr (Flt (map_option (\<lambda>x. ?E ! t + 2 * x) (?S ! t)))"
    using assms(2) lE lS up by (simp add: loc_def column_def del: map_map)
  have f3: "loc ?f t ''bollinger_lower'' = Inr (Flt (map_option (\<lambda>x. ?E ! t - 2 * x) (?S ! t)))"
    using assms(2) lE lS lo by (simp add: loc_def column_def del: map_map)
  have "add_ewma_bollinger_bands pvs ?h = Inr ?f"
    by (rule add_ewma_bollinger_bands_frame[OF assms(1)])
  then have "add_ewma_bollinger_bands pvs ?h = Inr ?f
      \<and> loc (bands_with_std_dev pvs ?h) t ''ewma'' = Inr (Flt (Some (?E ! t)))
      \<and> loc (bands_with_std_dev pvs ?h) t ''std_dev'' = Inr (Flt (?S ! t))
      \<and> (?S ! t = None \<longleftrightarrow> t + 1 < nat ?h \<or> ?h = 1)
      \<and> loc ?f t ''ewma'' = Inr (Flt (Some (?E ! t)))
      \<and> loc ?f t ''bollinger_upper'' = Inr (Flt (map_option (\<lambda>x. ?E ! t + 2 * x) (?S ! t)))
      \<and> loc ?f t ''bollinger_lower'' = Inr (Flt (map_option (\<lambda>x. ?E ! t - 2 * x) (?S ! t)))"
    using b1 b2 sdef f1 f2 f3 by (simp only: simp_thms)
  then show ?thesis by (intro exI)
qed

text \<open>
  Claim C7, as amended. For a positive halflife the returned frame has the dates of the
  series as index and exactly the columns \<open>portfolio_value\<close>, \<open>ewma\<close>, \<open>bollinger_upper\<close>
  and \<open>bollinger_lower\<close>, each with one cell per date; the rolling standard deviation is
  computed into a column \<open>std_dev\<close> and that column is dropped before the return.
\<close>

theorem bands_frame_columns:
  assumes "0 < halflife_days"
  shows "\<exists>f. add_ewma_bollinger_bands pvs halflife_days = Inr f
      \<and> index f = map fst pvs
      \<and> map fst (cols f) = [''portfolio_value'', ''ewma'', ''bollinger_upper'', ''bollinger_lower'']
      \<and> column f ''std_dev'' = None
      \<and> list_all (\<lambda>(c, xs). length xs = length pvs) (cols f)
      \<and> column (bands_with_std_dev pvs halflife_days) ''std_dev'' =
           Some (map Flt (rolling_std (nat halflife_days) (map snd pvs)))"
  unfolding add_ewma_bollinger_bands_frame[OF assms]
  by (simp add: column_def ewm_mean_length rolling_std_length bands_with_std_dev_cols)

lemma ewm_mean_example: "ewm_mean (1/2) [1, 4] = [1, 3]"
  by (simp add: ewm_mean_def)

lemma rolling_std_example: "rolling_std (Suc 0) [1, 4] = [None, None]"
  by (simp add: rolling_std_def sample_std_def upt_rec)

text \<open>
  Against claim C1 as stated: values 1 and 4 with halflife 1, so \<open>alpha = 1/2\<close>. The
  estimator returns \<open>ewma[1] = 3\<close>; the recursion of the claim gives
  \<open>alpha * 4 + (1 - alpha) * 1 = 5/2\<close>.
\<close>

theorem ewma_recursion_fails:
  "add_ewma_bollinger_bands [(''2024-01-02'', 1), (''2024-01-03'', 4)] 1 =
     Inr \<lparr>index = [''2024-01-02'', ''2024-01-03''],
          cols = [(''portfolio_value'', [Flt (Some 1), Flt (Some 4)]),
                  (''ewma'', [Flt (Some 1), Flt (Some 3)]),
                  (''bollinger_upper'', [Flt None, Flt None]),
                  (''bollinger_lower'', [Flt None, Flt None])]\<rparr>
   \<and> (1 - ewm_alpha 1) ^ 1 = 1/2
   \<and> ewm_alpha 1 * 4 + (1 - ewm_alpha 1) * 1 = 5/2"
  by (simp add: add_ewma_bollinger_bands_def bands_with_std_dev_def assign_def drop_columns_def
      ewm_alpha_one ewm_mean_example rolling_std_example fadd_def fsub_def fmul_def Let_def)

theorem ewma_is_adjusted_mean_witness:
  "\<exists>f. add_ewma_bollinger_bands [(''2024-01-02'', 1), (''2024-01-03'', 4)] 1 = Inr f
     \<and> loc f 0 ''ewma'' = Inr (Flt (Some 1))
     \<and> loc f 1 ''ewma'' = Inr (Flt (Some 3))"
proof -
  have h: "(0::int) < 1" by simp
  have w: "weighted_mean (1 - ewm_alpha 1) (map snd [(''2024-01-02'', 1), (''2024-01-03'', 4)]) 1 = 3"
    by (simp add: weighted_mean_def ewm_alpha_one)
  from ewma_is_adjusted_mean[OF h, of "[(''2024-01-02'', 1), (''2024-01-03'', 4)]"]
  obtain f where f: "add_ewma_bollinger_bands [(''2024-01-02'', 1), (''2024-01-03'', 4)] 1 = Inr f"
    "loc f 0 ''ewma'' = Inr (Flt (Some (snd ([(''2024-01-02'', 1::real), (''2024-01-03'', 4)] ! 0))))"
    "\<forall>t<length [(''2024-01-02'', 1::real), (''2024-01-03'', 4)]. loc f t ''ewma'' =
            Inr (Flt (Some (weighted_mean (1 - ewm_alpha 1)
               (map snd [(''2024-01-02'', 1), (''2024-01-03'', 4)]) t)))"
    by auto
  from f(3) have "loc f 1 ''ewma'' = Inr (Flt (Some 3))" unfolding w[symmetric] by simp
  with f(1,2) show ?thesis by auto
qed

text \<open>
  Against claim C6 as stated: with halflife 1 every index is at least \<open>halflife - 1\<close>,
  and the deviation and the bands are NaN at all of them.
\<close>

theorem single_window_std_undefined:
  "loc (bands_with_std_dev [(''2024-01-02'', 1), (''2024-01-03'', 4)] 1) 0 ''std_dev'' = Inr (Flt None)
   \<and> loc (bands_with_std_dev [(''2024-01-02'', 1), (''2024-01-03'', 4)] 1) 1 ''std_dev'' = Inr (Flt None)
   \<and> loc (bands_with_std_dev [(''2024-01-02'', 1), (''2024-01-03'', 4)] 1) 0 ''bollinger_upper'' = Inr (Flt None)
   \<and> loc (bands_with_std_dev [(''2024-01-02'', 1), (''2024-01-03'', 4)] 1) 0 ''bollinger_lower'' = Inr (Flt None)"
  by (simp add: loc_def column_def bands_with_std_dev_cols bands_with_std_dev_index
      rolling_std_example ewm_alpha_one ewm_mean_example fadd_def fsub_def fmul_def)

theorem bands_defined_from_window_witness:
  "\<exists>f e s. add_ewma_bollinger_bands [(''2024-01-02'', 1), (''2024-01-03'', 3)] 2 = Inr f
      \<and> loc (bands_with_std_dev [(''2024-01-02'', 1), (''2024-01-03'', 3)] 2) 1 ''std_dev'' = Inr (Flt (Some s))
      \<and> loc f 1 ''ewma'' = Inr (Flt (Some e))
      \<and> loc f 1 ''bollinger_upper'' = Inr (Flt (Some (e + 2 * s)))
      \<and> loc f 1 ''bollinger_lower'' = Inr (Flt (Some (e - 2 * s)))"
proof -
  have h: "(0::int) < 2" by simp
  have t: "(1::nat) < length [(''2024-01-02'', 1::real), (''2024-01-03'', 3)]" by simp
  from bands_defined_from_window[OF h t]
  obtain f e s where f: "add_ewma_bollinger_bands [(''2024-01-02'', 1), (''2024-01-03'', 3)] 2 = Inr f"
    "loc (bands_with_std_dev [(''2024-01-02'', 1), (''2024-01-03'', 3)] 2) 1 ''std_dev'' = Inr (Flt s)"
    "s = None \<longleftrightarrow> 1 + 1 < nat 2 \<or> (2::int) = 1"
    "loc f 1 ''ewma'' = Inr (Flt (Some e))"
    "loc f 1 ''bollinger_upper'' = Inr (Flt (map_option (\<lambda>x. e + 2 * x) s))"
    "loc f 1 ''bollinger_lower'' = Inr (Flt (map_option (\<lambda>x. e - 2 * x) s))"
    by blast
  from f(3) obtain x where x: "s = Some x" by (cases s) auto
  show ?thesis using f(1,2,4,5,6) unfolding x by auto
qed

text \<open>
  Against claim C7 as stated: the frame returned for the values 1 and 4 has no column
  \<open>std_dev\<close>; reading it raises KeyError.
\<close>

theorem std_dev_column_dropped:
  "add_ewma_bollinger_bands [(''2024-01-02'', 1), (''2024-01-03'', 4)] 1 =
     Inr \<lparr>index = [''2024-01-02'', ''2024-01-03''],
          cols = [(''portfolio_value'', [Flt (Some 1), Flt (Some 4)]),
                  (''ewma'', [Flt (Some 1), Flt (Some 3)]),
                  (''bollinger_upper'', [Flt None, Flt None]),
                  (''bollinger_lower'', [Flt None, Flt None])]\<rparr>
   \<and> loc \<lparr>index = [''2024-01-02'', ''2024-01-03''],
          cols = [(''portfolio_value'', [Flt (Some 1), Flt (Some 4)]),
                  (''ewma'', [Flt (Some 1), Flt (Some 3)]),
                  (''bollinger_upper'', [Flt None, Flt None]),
                  (''bollinger_lower'', [Flt None, Flt None])]\<rparr> 0 ''std_dev'' = Inl KeyError"
  by (simp add: add_ewma_bollinger_bands_def bands_with_std_dev_def assign_def drop_columns_def
      ewm_alpha_one ewm_mean_example rolling_std_example fadd_def fsub_def fmul_def loc_def column_def Let_def)

theorem bands_frame_columns_witness:
  "\<exists>f. add_ewma_bollinger_bands [(''2024-01-02'', 1), (''2024-01-03'', 3)] 2 = Inr f
      \<and> index f = [''2024-01-02'', ''2024-01-03'']
      \<and> map fst (cols f) = [''portfolio_value'', ''ewma'', ''bollinger_upper'', ''bollinger_lower'']
      \<and> column f ''std_dev'' = None"
proof -
  have h: "(0::int) < 2" by simp
  from bands_frame_columns[OF h, of "[(''2024-01-02'', 1), (''2024-01-03'', 3)]"]
  show ?thesis by auto
qed

section \<open>Properties of the trade simulator\<close>

lemma ebind_Inr_iff: "ebind m f = Inr y \<longleftrightarrow> (\<exists>x. m = Inr x \<and> f x = Inr y)"
  by (cases m) (simp_all add: ebind_def)

lemma ebind_Inr [simp]: "ebind (Inr x) f = f x"
  by (simp add: ebind_def)

lemma ebind_Inl [simp]: "ebind (Inl e) f = Inl e"
  by (simp add: ebind_def)

lemma index_assign [simp]: "index (assign f c xs) = index f"
  by (simp add: assign_def)

lemma map_of_replace:
  "map_of (map (\<lambda>(k, v). if k = c then (k, xs) else (k, v)) kvs) c' =
     (if c' = c then (case map_of kvs c of None \<Rightarrow> None | Some v \<Rightarrow> Some xs) else map_of kvs c')"
  by (induction kvs) auto

lemma map_of_append_new:
  "map_of (kvs @ [(c, xs)]) c' =
     (case map_of kvs c' of Some v \<Rightarrow> Some v | None \<Rightarrow> if c' = c then Some xs else None)"
  by (induction kvs) auto

lemma column_assign: "column (assign f c xs) c' = (if c' = c then Some xs else column f c')"
proof (cases "c \<in> fst ` set (cols f)")
  case True
  then obtain v where "map_of (cols f) c = Some v"
    by (metis map_of_eq_None_iff not_None_eq)
  with True show ?thesis by (simp add: column_def assign_def map_of_replace)
next
  case False
  then have "map_of (cols f) c = None" by (simp add: map_of_eq_None_iff)
  with False show ?thesis
    by (simp add: column_def assign_def map_of_append_new del: map_of_append split: option.splits)
qed

lemma index_set_loc [simp]: "index (set_loc f i c v) = index f"
  by (simp add: set_loc_def split: option.splits)

lemma column_set_loc:
  "column (set_loc f i c v) c' =
     (if c' = c
      then Some (case column f c of None \<Rightarrow> (replicate (length (index f)) (Flt None))[i := v]
                 | Some xs \<Rightarrow> xs[i := v])
      else column f c')"
  by (simp add: set_loc_def column_assign split: option.splits)

lemma index_assign_scalar [simp]: "index (assign_scalar f c v) = index f"
  by (simp add: assign_scalar_def)

lemma column_assign_scalar:
  "column (assign_scalar f c v) c' =
     (if c' = c then Some (replicate (length (index f)) v) else column f c')"
  by (simp add: assign_scalar_def column_assign)

lemma exit_events_snoc:
  "exit_events (logs @ [(d, p, ty, v)]) =
     exit_events logs + (if ty = ''long_exit'' \<or> ty = ''short_exit'' then 1 else 0)"
  by (simp add: exit_events_def)

lemma relabel_last:
  assumes "length logs = i"
  shows "relabel i ty (logs @ [(d, p, t0, v)]) = Inr (logs @ [(d, p, ty, v)])"
  using assms by (auto simp: relabel_def nth_append)

lemma relabel_exit_last:
  assumes "length logs = i"
  shows "relabel_exit i ty f (logs @ [(d, p, t0, v)]) =
           ebind (loc_float f i ''total_trade_pnl'') (\<lambda>total. Inr (logs @ [(d, p, ty, total)]))"
  using assms by (auto simp: relabel_exit_def nth_append)

text \<open>What one step does to the log, the tally and the position.\<close>

lemma enter_position_log:
  assumes "enter_position i side price s = Inr s'" "trade_logs s = logs @ [(d, p, t0, v)]" "length logs = i"
  shows "trade_logs s' = logs @ [(d, p, side @ ''_entry'', v)] \<and> trades_tally s' = trades_tally s
       \<and> current_position s' = Some side"
  using assms by (auto simp: enter_position_def Let_def relabel_last)

lemma exit_position_log:
  assumes "exit_position i side mv s = Inr s'" "trade_logs s = logs @ [(d, p, t0, v)]" "length logs = i"
  shows "\<exists>total. trade_logs s' = logs @ [(d, p, side @ ''_exit'', total)]
       \<and> trades_tally s' = trades_tally s + 1 \<and> current_position s' = None"
  using assms
  by (auto simp: exit_position_def Let_def relabel_exit_last ebind_Inr_iff split: option.splits)

lemma mark_to_market_log:
  assumes "mark_to_market i s = Inr (price, ewma, upper, lower, s1)"
  shows "\<exists>d v. trade_logs s1 = trade_logs s @ [(d, price, ''neither'', v)]"
    "trades_tally s1 = trades_tally s" "current_position s1 = current_position s"
  using assms by (auto simp: mark_to_market_def ebind_Inr_iff Let_def)

lemma transition_cases:
  assumes "transition i price ewma upper lower s = Inr s'"
  obtains (short_in) "enter_position i ''short'' price s = Inr s'"
    | (long_in) "enter_position i ''long'' price s = Inr s'"
    | (short_out) "exit_position i ''short'' (fsub (entry_price s) price) s = Inr s'"
    | (long_out) "exit_position i ''long'' (fsub price (entry_price s)) s = Inr s'"
    | (stay) "s' = s"
  proof (cases "current_position s = None \<and> fgt price upper")
    case True
    with assms that(1) show ?thesis by (simp add: transition_def)
  next
    case c1: False
    show ?thesis
    proof (cases "current_position s = None \<and> flt price lower")
      case True
      with assms c1 that(2) show ?thesis by (simp add: transition_def)
    next
      case c2: False
      show ?thesis
      proof (cases "current_position s = Some ''short'' \<and> flt price ewma")
        case True
        with assms c1 c2 that(3) show ?thesis by (simp add: transition_def)
      next
        case c3: False
        show ?thesis
        proof (cases "current_position s = Some ''long'' \<and> fgt price ewma")
          case True
          with assms c1 c2 c3 that(4) show ?thesis by (simp add: transition_def)
        next
          case False
          with assms c1 c2 c3 that(5) show ?thesis by (simp add: transition_def)
        qed
      qed
    qed
  qed

lemma transition_log:
  assumes "transition i price ewma upper lower s = Inr s'"
    "trade_logs s = logs @ [(d, p, ''neither'', v)]" "length logs = i"
  shows "\<exists>ty w. trade_logs s' = logs @ [(d, p, ty, w)]
       \<and> trades_tally s' = trades_tally s + (if ty = ''long_exit'' \<or> ty = ''short_exit'' then 1 else 0)"
  using assms(1)
proof (cases rule: transition_cases)
  case short_in
  from enter_position_log[OF this assms(2,3)]
  have "trade_logs s' = logs @ [(d, p, ''short_entry'', v)] \<and> trades_tally s' = trades_tally s + (if ''short_entry'' = ''long_exit'' \<or> ''short_entry'' = ''short_exit'' then 1 else 0)"
    by simp
  then show ?thesis by (intro exI)
next
  case long_in
  from enter_position_log[OF this assms(2,3)]
  have "trade_logs s' = logs @ [(d, p, ''long_entry'', v)] \<and> trades_tally s' = trades_tally s + (if ''long_entry'' = ''long_exit'' \<or> ''long_entry'' = ''short_exit'' then 1 else 0)"
    by simp
  then show ?thesis by (intro exI)
next
  case short_out
  from exit_position_log[OF this assms(2,3)] obtain total where
    "trade_logs s' = logs @ [(d, p, ''short_exit'', total)] \<and> trades_tally s' = trades_tally s + (if ''short_exit'' = ''long_exit'' \<or> ''short_exit'' = ''short_exit'' then 1 else 0)"
    by auto
  then show ?thesis by (intro exI)
next
  case long_out
  from exit_position_log[OF this assms(2,3)] obtain total where
    "trade_logs s' = logs @ [(d, p, ''long_exit'', total)] \<and> trades_tally s' = trades_tally s + (if ''long_exit'' = ''long_exit'' \<or> ''long_exit'' = ''short_exit'' then 1 else 0)"
    by auto
  then show ?thesis by (intro exI)
next
  case stay
  with assms(2) have "trade_logs s' = logs @ [(d, p, ''neither'', v)] \<and> trades_tally s' = trades_tally s + (if ''neither'' = ''long_exit'' \<or> ''neither'' = ''short_exit'' then 1 else 0)"
    by simp
  then show ?thesis by (intro exI)
qed

lemma enter_position_tally:
  "enter_position i side price s = Inr s' \<Longrightarrow>
     trades_tally s' = trades_tally s \<and> current_position s' = Some side"
  by (auto simp: enter_position_def Let_def ebind_Inr_iff)

lemma exit_position_tally:
  "exit_position i side mv s = Inr s' \<Longrightarrow>
     trades_tally s' = trades_tally s + 1 \<and> current_position s' = None"
  by (auto simp: exit_position_def Let_def ebind_Inr_iff split: option.splits)

lemma transition_tally:
  assumes "transition i price ewma upper lower s = Inr s'"
  shows "trades_tally s \<le> trades_tally s'"
    "current_position s \<in> {None, Some ''short'', Some ''long''} \<Longrightarrow>
       current_position s' \<in> {None, Some ''short'', Some ''long''}"
proof -
  have "trades_tally s \<le> trades_tally s' \<and>
    (current_position s \<in> {None, Some ''short'', Some ''long''} \<longrightarrow>
       current_position s' \<in> {None, Some ''short'', Some ''long''})"
    using assms
  proof (cases rule: transition_cases)
    case short_in
    from enter_position_tally[OF this] show ?thesis by simp
  next
    case long_in
    from enter_position_tally[OF this] show ?thesis by simp
  next
    case short_out
    from exit_position_tally[OF this] show ?thesis by simp
  next
    case long_out
    from exit_position_tally[OF this] show ?thesis by simp
  next
    case stay
    then show ?thesis by simp
  qed
  then show "trades_tally s \<le> trades_tally s'"
    "current_position s \<in> {None, Some ''short'', Some ''long''} \<Longrightarrow>
       current_position s' \<in> {None, Some ''short'', Some ''long''}"
    by simp_all
qed

lemma track_step_cases:
  assumes "track_step i s = Inr s'"
  obtains price ewma upper lower s1 where
    "mark_to_market i s = Inr (price, ewma, upper, lower, s1)"
    "transition i price ewma upper lower s1 = Inr s'"
  using assms by (auto simp: track_step_def ebind_Inr_iff)

lemma track_step_tally:
  assumes "track_step i s = Inr s'"
  shows "trades_tally s \<le> trades_tally s'"
    "current_position s \<in> {None, Some ''short'', Some ''long''} \<Longrightarrow>
       current_position s' \<in> {None, Some ''short'', Some ''long''}"
proof -
  from assms obtain price ewma upper lower s1 where
    m: "mark_to_market i s = Inr (price, ewma, upper, lower, s1)"
    and t: "transition i price ewma upper lower s1 = Inr s'"
    by (rule track_step_cases)
  from mark_to_market_log(2,3)[OF m] transition_tally[OF t]
  show "trades_tally s \<le> trades_tally s'"
    "current_position s \<in> {None, Some ''short'', Some ''long''} \<Longrightarrow>
       current_position s' \<in> {None, Some ''short'', Some ''long''}"
    by auto
qed

lemma track_step_log:
  assumes "track_step i s = Inr s'" "length (trade_logs s) = i"
  shows "\<exists>d p ty v. trade_logs s' = trade_logs s @ [(d, p, ty, v)]
       \<and> trades_tally s' = trades_tally s + (if ty = ''long_exit'' \<or> ty = ''short_exit'' then 1 else 0)"
proof -
  from assms(1) obtain price ewma upper lower s1 where
    m: "mark_to_market i s = Inr (price, ewma, upper, lower, s1)"
    and t: "transition i price ewma upper lower s1 = Inr s'"
    by (rule track_step_cases)
  from mark_to_market_log(1)[OF m] obtain d v where
    l: "trade_logs s1 = trade_logs s @ [(d, price, ''neither'', v)]" by blast
  from transition_log[OF t l assms(2)] obtain ty w where
    "trade_logs s' = trade_logs s @ [(d, price, ty, w)]"
    "trades_tally s' = trades_tally s1 + (if ty = ''long_exit'' \<or> ty = ''short_exit'' then 1 else 0)"
    by blast
  with mark_to_market_log(2)[OF m] show ?thesis by (intro exI[of _ d] exI[of _ price] exI[of _ ty] exI[of _ w]) simp
qed

lemma track_step_inv:
  assumes "track_step i s = Inr s'" "scan_inv i s"
  shows "scan_inv (Suc i) s'"
proof -
  from track_step_log[OF assms(1)] assms(2) obtain d p ty v where
    "trade_logs s' = trade_logs s @ [(d, p, ty, v)]"
    "trades_tally s' = trades_tally s + (if ty = ''long_exit'' \<or> ty = ''short_exit'' then 1 else 0)"
    by (auto simp: scan_inv_def)
  with assms(2) track_step_tally(2)[OF assms(1)] show ?thesis
    by (simp add: scan_inv_def exit_events_snoc)
qed

lemma track_loop_inv:
  assumes "track_loop [i..<n] s = Inr s'" "scan_inv i s" "i \<le> n"
  shows "scan_inv n s' \<and> trades_tally s \<le> trades_tally s'"
  using assms
proof (induction "n - i" arbitrary: i s)
  case 0
  then show ?case by simp
next
  case (Suc k)
  then have lt: "i < n" by simp
  then have u: "[i..<n] = i # [Suc i..<n]" by (simp add: upt_conv_Cons)
  from Suc.prems(1) obtain s1 where s1: "track_step i s = Inr s1"
    and rest: "track_loop [Suc i..<n] s1 = Inr s'"
    by (auto simp: u ebind_Inr_iff)
  have "scan_inv n s' \<and> trades_tally s1 \<le> trades_tally s'"
    by (rule Suc.hyps(1)[OF _ rest track_step_inv[OF s1 Suc.prems(2)]]) (use Suc.hyps(2) lt in auto)
  with track_step_tally(1)[OF s1] show ?case by auto
qed

lemma track_init_inv:
  assumes "track_init df0 iv = Inr s"
  shows "scan_inv 1 s" "trades_tally s = 0"
  using assms
  by (auto simp: track_init_def Let_def ebind_Inr_iff scan_inv_def exit_events_def split: if_splits)

lemma track_loop_append:
  "track_loop (xs @ ys) s = ebind (track_loop xs s) (track_loop ys)"
  by (induction xs arbitrary: s) (auto simp: ebind_def split: sum.splits)

lemma track_after_mono:
  assumes "track_after df0 iv k = Inr sk" "j \<le> k"
  shows "\<exists>sj. track_after df0 iv j = Inr sj \<and> trades_tally sj \<le> trades_tally sk
               \<and> trades_tally sj = exit_events (trade_logs sj)
               \<and> length (trade_logs sj) = max 1 j"
proof -
  from assms(1) obtain s0 where s0: "track_init df0 iv = Inr s0"
    and lk: "track_loop [1..<k] s0 = Inr sk"
    by (auto simp: track_after_def ebind_Inr_iff)
  show ?thesis
  proof (cases "1 \<le> j")
    case False
    then have j0: "j = 0" by simp
    then have a: "track_after df0 iv j = Inr s0" by (simp add: track_after_def s0)
    have "trades_tally s0 \<le> trades_tally sk"
      using track_init_inv(2)[OF s0] by simp
    with a track_init_inv[OF s0] j0 show ?thesis by (simp add: scan_inv_def)
  next
    case True
    have "[1..<k] = [1..<j] @ [j..<k]" using True assms(2)
      by (metis le_Suc_ex upt_add_eq_append)
    with lk obtain sj where sj: "track_loop [1..<j] s0 = Inr sj" and r: "track_loop [j..<k] sj = Inr sk"
      by (auto simp: track_loop_append ebind_Inr_iff)
    have ij: "scan_inv j sj" using track_loop_inv[OF sj track_init_inv(1)[OF s0] True] by simp
    have a: "track_after df0 iv j = Inr sj" using sj by (simp add: track_after_def s0)
    from track_loop_inv[OF r ij assms(2)] have "trades_tally sj \<le> trades_tally sk" by simp
    with a ij True show ?thesis by (simp add: scan_inv_def max_def)
  qed
qed

text \<open>
  Claim C8. When the simulator returns a log and a tally, the tally is the number of
  \<open>long_exit\<close> and \<open>short_exit\<close> records of that log; and along the scan the running
  tally never decreases: for indices \<open>j \<le> k\<close> the tally after \<open>j\<close> steps is at most the
  tally after \<open>k\<close> steps, which is at most the returned one.
\<close>

theorem tally_counts_exits:
  assumes "track_trades df0 initial_investment = Inr (logs, tally)"
  shows "tally = exit_events logs
     \<and> (\<forall>j k. j \<le> k \<and> k \<le> length (index df0) \<longrightarrow>
           (\<exists>sj sk. track_after df0 initial_investment j = Inr sj
                 \<and> track_after df0 initial_investment k = Inr sk
                 \<and> trades_tally sj \<le> trades_tally sk \<and> trades_tally sk \<le> tally))"
proof -
  let ?n = "length (index df0)"
  from assms obtain s where s: "track_after df0 initial_investment ?n = Inr s"
    and l: "logs = trade_logs s" and t: "tally = trades_tally s"
    by (auto simp: track_trades_def track_run_def ebind_Inr_iff)
  from track_after_mono[OF s le_refl] have e: "tally = exit_events logs"
    by (simp add: s l t)
  have "\<exists>sj sk. track_after df0 initial_investment j = Inr sj
                 \<and> track_after df0 initial_investment k = Inr sk
                 \<and> trades_tally sj \<le> trades_tally sk \<and> trades_tally sk \<le> tally"
    if "j \<le> k" "k \<le> ?n" for j k
  proof -
    from track_after_mono[OF s that(2)] obtain sk where
      sk: "track_after df0 initial_investment k = Inr sk" "trades_tally sk \<le> trades_tally s" by blast
    from track_after_mono[OF sk(1) that(1)] obtain sj where
      sj: "track_after df0 initial_investment j = Inr sj" "trades_tally sj \<le> trades_tally sk" by blast
    from sk sj show ?thesis by (simp add: t)
  qed
  with e show ?thesis by blast
qed

lemmas track_defs = track_trades_def track_run_def track_after_def track_init_def track_step_def
  mark_to_market_def transition_def enter_position_def exit_position_def relabel_def relabel_exit_def
  assign_scalar_def assign_def set_loc_def loc_float_def loc_def as_float_def column_def
  fadd_def fsub_def fmul_def fdiv_def flt_def fgt_def Let_def

lemma open_short_run:
  "track_run open_short 1000 =
     Inr \<lparr>dframe = \<lparr>index = [''2024-01-02'', ''2024-01-03''],
            cols = [(''portfolio_value'', [Flt (Some 100), Flt (Some 160)]),
                    (''ewma'', [Flt (Some 100), Flt (Some 130)]),
                    (''bollinger_upper'', [Flt None, Flt (Some 150)]),
                    (''bollinger_lower'', [Flt None, Flt (Some 110)]),
                    (''trade_pnl'', [Flt (Some 0), Flt (Some 0)]),
                    (''total_trade_pnl'', [Flt (Some 1000), Flt (Some 1000)]),
                    (''position'', [Obj None, Obj (Some ''short'')])]\<rparr>,
          current_position = Some ''short'', entry_price = Some 160,
          realized_balance = Some 1000, unrealized_pnl = Some 0, trades_tally = 0,
          units_traded = Some (Some (25/4)),
          trade_logs = [(''2024-01-02'', Some 100, ''neither'', Some 1000),
                        (''2024-01-03'', Some 160, ''short_entry'', Some 1000)]\<rparr>"
  by (simp add: open_short_def track_defs)

text \<open>
  Claim C4 on a frame of two days whose second value, 160, is above the upper band 150:
  the run ends with a short position open, the test \<^verbatim>\<open>current_position == 'Open'\<close> is false
  and nothing is printed, and the caller receives the log and the tally 0, with no flag.
\<close>

theorem open_position_not_reported:
  "final_position open_short 1000 = Inr (Some ''short'')
   \<and> open_position_reported open_short 1000 = Inr False
   \<and> track_trades open_short 1000 =
       Inr ([(''2024-01-02'', Some 100, ''neither'', Some 1000),
             (''2024-01-03'', Some 160, ''short_entry'', Some 1000)], 0)"
  by (simp add: final_position_def open_position_reported_def track_trades_def open_short_run)

lemma track_after_position:
  assumes "track_after df0 iv k = Inr s"
  shows "current_position s \<in> {None, Some ''short'', Some ''long''}"
proof -
  from assms obtain s0 where s0: "track_init df0 iv = Inr s0"
    and lk: "track_loop [1..<k] s0 = Inr s"
    by (auto simp: track_after_def ebind_Inr_iff)
  show ?thesis
  proof (cases "1 \<le> k")
    case True
    from track_loop_inv[OF lk track_init_inv(1)[OF s0] True] show ?thesis by (simp add: scan_inv_def)
  next
    case False
    then have "s = s0" using lk by simp
    with track_init_inv(1)[OF s0] show ?thesis by (simp add: scan_inv_def)
  qed
qed

text \<open>The position is never the string \<^verbatim>\<open>'Open'\<close>, so the message is printed in no run.\<close>

lemma open_position_never_reported: "open_position_reported df0 iv \<noteq> Inr True"
proof
  assume "open_position_reported df0 iv = Inr True"
  then obtain s where "track_after df0 iv (length (index df0)) = Inr s" "current_position s = Some ''Open''"
    by (auto simp: open_position_reported_def track_run_def ebind_Inr_iff)
  with track_after_position[of df0 iv _ s] show False by auto
qed

lemma frame_kept_refl: "frame_kept f f"
  by (simp add: frame_kept_def)

lemma frame_kept_trans: "frame_kept f g \<Longrightarrow> frame_kept g h \<Longrightarrow> frame_kept f h"
  by (simp add: frame_kept_def)

lemma frame_kept_set_loc:
  "c = ''total_trade_pnl'' \<or> c = ''position'' \<Longrightarrow> frame_kept f (set_loc f i c v)"
  by (auto simp: frame_kept_def column_set_loc)

lemma mark_to_market_frame:
  assumes "mark_to_market i s = Inr (price, ewma, upper, lower, s1)"
  shows "frame_kept (dframe s) (dframe s1)"
  using assms
  by (auto simp: mark_to_market_def ebind_Inr_iff Let_def frame_kept_set_loc split: if_splits)

lemma enter_position_frame:
  assumes "enter_position i side price s = Inr s'"
  shows "frame_kept (dframe s) (dframe s')"
  using assms by (auto simp: enter_position_def Let_def ebind_Inr_iff frame_kept_set_loc)

lemma exit_position_frame:
  assumes "exit_position i side mv s = Inr s'"
  shows "frame_kept (dframe s) (dframe s')"
  using assms
  by (auto simp: exit_position_def Let_def ebind_Inr_iff frame_kept_set_loc split: option.splits)

lemma transition_frame:
  assumes "transition i price ewma upper lower s = Inr s'"
  shows "frame_kept (dframe s) (dframe s')"
  using assms
proof (cases rule: transition_cases)
  case short_in
  then show ?thesis by (rule enter_position_frame)
next
  case long_in
  then show ?thesis by (rule enter_position_frame)
next
  case short_out
  then show ?thesis by (rule exit_position_frame)
next
  case long_out
  then show ?thesis by (rule exit_position_frame)
next
  case stay
  then show ?thesis by (simp add: frame_kept_refl)
qed

lemma track_step_frame:
  assumes "track_step i s = Inr s'"
  shows "frame_kept (dframe s) (dframe s')"
proof -
  from assms obtain price ewma upper lower s1 where
    m: "mark_to_market i s = Inr (price, ewma, upper, lower, s1)"
    and t: "transition i price ewma upper lower s1 = Inr s'"
    by (rule track_step_cases)
  from mark_to_market_frame[OF m] transition_frame[OF t] show ?thesis
    by (rule frame_kept_trans)
qed

lemma track_loop_frame:
  assumes "track_loop is s = Inr s'"
  shows "frame_kept (dframe s) (dframe s')"
  using assms
proof (induction "is" arbitrary: s)
  case Nil
  then show ?case by (simp add: frame_kept_refl)
next
  case (Cons i "is")
  from Cons.prems obtain s1 where s1: "track_step i s = Inr s1" and r: "track_loop is s1 = Inr s'"
    by (auto simp: ebind_Inr_iff)
  from track_step_frame[OF s1] Cons.IH[OF r] show ?case by (rule frame_kept_trans)
qed

lemma track_init_frame:
  assumes "track_init df0 iv = Inr s"
  shows "index (dframe s) = index df0"
    "c \<notin> {''trade_pnl'', ''total_trade_pnl'', ''position''} \<Longrightarrow> column (dframe s) c = column df0 c"
    "column (dframe s) ''trade_pnl'' = Some (replicate (length (index df0)) (Flt (Some 0)))"
    "column (dframe s) ''total_trade_pnl'' \<noteq> None"
    "column (dframe s) ''position'' \<noteq> None"
  using assms
  by (auto simp: track_init_def Let_def ebind_Inr_iff column_set_loc column_assign_scalar
      split: if_splits)

lemma track_run_frame:
  assumes "track_run df0 iv = Inr s"
  shows "index (dframe s) = index df0"
    "c \<notin> {''trade_pnl'', ''total_trade_pnl'', ''position''} \<Longrightarrow> column (dframe s) c = column df0 c"
    "column (dframe s) ''trade_pnl'' = Some (replicate (length (index df0)) (Flt (Some 0)))"
    "column (dframe s) ''total_trade_pnl'' \<noteq> None"
    "column (dframe s) ''position'' \<noteq> None"
proof -
  from assms obtain s0 where s0: "track_init df0 iv = Inr s0"
    and l: "track_loop [1..<length (index df0)] s0 = Inr s"
    by (auto simp: track_run_def track_after_def ebind_Inr_iff)
  note k = track_loop_frame[OF l, unfolded frame_kept_def]
  note i = track_init_frame[OF s0]
  show "index (dframe s) = index df0" using k i(1) by simp
  show "column (dframe s) c = column df0 c" if "c \<notin> {''trade_pnl'', ''total_trade_pnl'', ''position''}"
    using k i(2)[OF that] that by simp
  show "column (dframe s) ''trade_pnl'' = Some (replicate (length (index df0)) (Flt (Some 0)))"
    using k i(3) by simp
  show "column (dframe s) ''total_trade_pnl'' \<noteq> None" using k i(4) by blast
  show "column (dframe s) ''position'' \<noteq> None" using k i(5) by blast
qed

lemma rel_sum_ebind:
  assumes "rel_sum (=) R m m'" "\<And>x y. R x y \<Longrightarrow> rel_sum (=) S (f x) (g y)"
  shows "rel_sum (=) S (ebind m f) (ebind m' g)"
  using assms by (cases m; cases m') (simp_all add: ebind_def)

lemma rel_sum_ebind_eq:
  assumes "m = m'" "\<And>x. rel_sum (=) S (f x) (g x)"
  shows "rel_sum (=) S (ebind m f) (ebind m' g)"
  using assms by (cases m') (auto simp: ebind_def)

lemma loc_same:
  "same_on N f g \<Longrightarrow> c \<in> N \<Longrightarrow> loc f i c = loc g i c"
  by (simp add: same_on_def loc_def)

lemma loc_float_same:
  "same_on N f g \<Longrightarrow> c \<in> N \<Longrightarrow> loc_float f i c = loc_float g i c"
  by (simp add: loc_float_def loc_same)

lemma set_loc_same:
  "same_on N f g \<Longrightarrow> same_on N (set_loc f i c v) (set_loc g i c v)"
  by (auto simp: same_on_def column_set_loc split: option.splits)

lemma same_on_index: "same_on N f g \<Longrightarrow> index f = index g"
  by (simp add: same_on_def)

lemma mark_to_market_same:
  assumes "sim_rel a b"
  shows "rel_sum (=) (\<lambda>(p, e, u, l, a1) (p', e', u', l', b1).
                         p = p' \<and> e = e' \<and> u = u' \<and> l = l' \<and> sim_rel a1 b1)
           (mark_to_market i a) (mark_to_market i b)"
proof -
  have fr: "same_on read_columns (dframe a) (dframe b)" using assms by (simp add: sim_rel_def)
  have flds: "current_position a = current_position b" "entry_price a = entry_price b"
    "realized_balance a = realized_balance b" "trade_logs a = trade_logs b"
    "trades_tally a = trades_tally b" "units_traded a = units_traded b"
    using assms by (simp_all add: sim_rel_def)
  have rd: "loc_float (dframe a) i c = loc_float (dframe b) i c"
    "loc (dframe a) j c = loc (dframe b) j c" if "c \<in> read_columns" for c j
    using fr that by (simp_all add: loc_float_same loc_same)
  have carry: "rel_sum (=) (same_on read_columns)
     (if i > 0
      then ebind (loc (dframe a) (i - 1) ''total_trade_pnl'') (\<lambda>previous.
           Inr (set_loc (dframe a) i ''total_trade_pnl'' previous))
      else Inr (set_loc (dframe a) i ''total_trade_pnl'' (Flt (Some 0))))
     (if i > 0
      then ebind (loc (dframe b) (i - 1) ''total_trade_pnl'') (\<lambda>previous.
           Inr (set_loc (dframe b) i ''total_trade_pnl'' previous))
      else Inr (set_loc (dframe b) i ''total_trade_pnl'' (Flt (Some 0))))"
  proof (cases "i > 0")
    case True
    have "rel_sum (=) (same_on read_columns)
       (ebind (loc (dframe a) (i - 1) ''total_trade_pnl'') (\<lambda>previous.
           Inr (set_loc (dframe a) i ''total_trade_pnl'' previous)))
       (ebind (loc (dframe b) (i - 1) ''total_trade_pnl'') (\<lambda>previous.
           Inr (set_loc (dframe b) i ''total_trade_pnl'' previous)))"
    proof (rule rel_sum_ebind_eq)
      show "loc (dframe a) (i - 1) ''total_trade_pnl'' = loc (dframe b) (i - 1) ''total_trade_pnl''"
        by (rule rd) (simp add: read_columns_def)
    qed (simp add: set_loc_same[OF fr])
    with True show ?thesis by simp
  next
    case False
    then show ?thesis by (simp add: set_loc_same[OF fr])
  qed
  show ?thesis
    unfolding mark_to_market_def
    apply (rule rel_sum_ebind_eq, simp add: rd read_columns_def)
    apply (rule rel_sum_ebind_eq, simp add: rd read_columns_def)
    apply (rule rel_sum_ebind_eq, simp add: rd read_columns_def)
    apply (rule rel_sum_ebind_eq, simp add: rd read_columns_def)
    apply (rule rel_sum_ebind[OF carry])
    apply (simp only: Let_def)
    apply (rule rel_sum_ebind_eq)
     apply (simp add: loc_float_same read_columns_def)
    apply (simp add: sim_rel_def flds same_on_index assms[unfolded sim_rel_def])
    done
qed

lemma enter_position_same:
  assumes "sim_rel a b"
  shows "rel_sum (=) sim_rel (enter_position i side price a) (enter_position i side price b)"
proof -
  have fr: "same_on read_columns (dframe a) (dframe b)" using assms by (simp add: sim_rel_def)
  show ?thesis
    unfolding enter_position_def Let_def
    apply (rule rel_sum_ebind_eq)
     apply (simp add: assms[unfolded sim_rel_def])
    apply (simp add: sim_rel_def assms[unfolded sim_rel_def] set_loc_same[OF fr])
    done
qed

lemma relabel_exit_same:
  assumes "same_on read_columns f g"
  shows "relabel_exit i ty f logs = relabel_exit i ty g logs"
proof -
  have h: "loc_float f i ''total_trade_pnl'' = loc_float g i ''total_trade_pnl''"
    by (rule loc_float_same[OF assms]) (simp add: read_columns_def)
  show ?thesis unfolding relabel_exit_def h by (rule refl)
qed

lemma exit_position_same:
  assumes "sim_rel a b"
  shows "rel_sum (=) sim_rel (exit_position i side mv a) (exit_position i side mv b)"
proof -
  have fr: "same_on read_columns (dframe a) (dframe b)" using assms by (simp add: sim_rel_def)
  have u: "units_traded a = units_traded b" using assms by (simp add: sim_rel_def)
  show ?thesis
  proof (cases "units_traded b")
    case None
    then show ?thesis by (simp add: exit_position_def u)
  next
    case (Some units)
    have t: "loc_float (dframe a) i ''total_trade_pnl'' = loc_float (dframe b) i ''total_trade_pnl''"
      by (rule loc_float_same[OF fr]) (simp add: read_columns_def)
    show ?thesis
      unfolding exit_position_def Let_def u Some option.case
      apply (rule rel_sum_ebind_eq)
       apply (simp add: t)
      apply (rule rel_sum_ebind_eq)
       apply (simp add: assms[unfolded sim_rel_def] relabel_exit_same[OF set_loc_same[OF fr]])
      apply (simp add: sim_rel_def assms[unfolded sim_rel_def] set_loc_same[OF fr])
      done
  qed
qed

lemma transition_same:
  assumes "sim_rel a b"
  shows "rel_sum (=) sim_rel (transition i price ewma upper lower a)
           (transition i price ewma upper lower b)"
proof -
  have p: "current_position a = current_position b" "entry_price a = entry_price b"
    using assms by (simp_all add: sim_rel_def)
  show ?thesis
    unfolding transition_def p
    using enter_position_same[OF assms] exit_position_same[OF assms] assms
    by (simp add: p)
qed

lemma track_step_same:
  assumes "sim_rel a b"
  shows "rel_sum (=) sim_rel (track_step i a) (track_step i b)"
  unfolding track_step_def
  by (rule rel_sum_ebind[OF mark_to_market_same[OF assms]]) (auto intro: transition_same)

lemma track_loop_same:
  assumes "sim_rel a b"
  shows "rel_sum (=) sim_rel (track_loop is a) (track_loop is b)"
  using assms
proof (induction "is" arbitrary: a b)
  case Nil
  then show ?case by simp
next
  case (Cons i "is")
  show ?case
    unfolding track_loop.simps
    by (rule rel_sum_ebind[OF track_step_same[OF Cons.prems]]) (rule Cons.IH)
qed

lemma track_init_same:
  assumes "same_on {''portfolio_value'', ''ewma'', ''bollinger_upper'', ''bollinger_lower''} f g"
  shows "rel_sum (=) sim_rel (track_init f iv) (track_init g iv)"
proof -
  let ?prep = "\<lambda>h. set_loc (assign_scalar (assign_scalar (assign_scalar h ''trade_pnl'' (Flt (Some 0)))
       ''total_trade_pnl'' (Flt (Some 0))) ''position'' (Obj None)) 0 ''total_trade_pnl''
       (Flt (Some iv))"
  have ix: "index f = index g" using assms by (simp add: same_on_def)
  have s: "same_on read_columns (?prep f) (?prep g)"
    using assms
    by (auto simp: same_on_def read_columns_def column_set_loc column_assign_scalar)
  have p: "loc_float (?prep f) 0 ''portfolio_value'' = loc_float (?prep g) 0 ''portfolio_value''"
    by (rule loc_float_same[OF s]) (simp add: read_columns_def)
  show ?thesis
  proof (cases "index g = []")
    case True
    then show ?thesis by (simp add: track_init_def ix)
  next
    case False
    have "rel_sum (=) sim_rel
       (ebind (loc_float (?prep f) 0 ''portfolio_value'') (\<lambda>price0.
                  Inr \<lparr>dframe = ?prep f, current_position = None, entry_price = Some 0,
                       realized_balance = Some iv, unrealized_pnl = Some 0,
                       trades_tally = 0, units_traded = None,
                       trade_logs = [(index (?prep f) ! 0, price0, ''neither'', Some iv)]\<rparr>))
       (ebind (loc_float (?prep g) 0 ''portfolio_value'') (\<lambda>price0.
                  Inr \<lparr>dframe = ?prep g, current_position = None, entry_price = Some 0,
                       realized_balance = Some iv, unrealized_pnl = Some 0,
                       trades_tally = 0, units_traded = None,
                       trade_logs = [(index (?prep g) ! 0, price0, ''neither'', Some iv)]\<rparr>))"
      by (rule rel_sum_ebind_eq[OF p]) (simp add: sim_rel_def s ix)
    with False show ?thesis by (simp add: track_init_def Let_def ix)
  qed
qed

lemma track_trades_same:
  assumes "same_on {''portfolio_value'', ''ewma'', ''bollinger_upper'', ''bollinger_lower''} f g"
  shows "track_trades f iv = track_trades g iv"
proof -
  have ix: "index f = index g" using assms by (simp add: same_on_def)
  have "rel_sum (=) sim_rel (track_run f iv) (track_run g iv)"
    unfolding track_run_def track_after_def ix
    by (rule rel_sum_ebind[OF track_init_same[OF assms]]) (rule track_loop_same)
  then show ?thesis
    by (cases "track_run f iv"; cases "track_run g iv") (simp_all add: track_trades_def sim_rel_def)
qed

lemma scenario_run:
  "track_run scenario 1000 =
     Inr \<lparr>dframe = \<lparr>index = [''d0'', ''d1'', ''d2'', ''d3''],
            cols = [(''portfolio_value'', [Flt (Some 100), Flt (Some 160), Flt (Some 95), Flt (Some 130)]),
                    (''ewma'', [Flt (Some 100), Flt (Some 140), Flt (Some 120), Flt (Some 125)]),
                    (''bollinger_upper'', [Flt None, Flt (Some 150), Flt (Some 170), Flt (Some 180)]),
                    (''bollinger_lower'', [Flt None, Flt (Some 90), Flt (Some 80), Flt (Some 70)]),
                    (''trade_pnl'', [Flt (Some 0), Flt (Some 0), Flt (Some 0), Flt (Some 0)]),
                    (''total_trade_pnl'', [Flt (Some 1000), Flt (Some 1000), Flt (Some (5625/4)), Flt (Some (5625/4))]),
                    (''position'', [Obj None, Obj (Some ''short''), Obj None, Obj None])]\<rparr>,
          current_position = None, entry_price = Some 160,
          realized_balance = Some (5625/4), unrealized_pnl = Some 0, trades_tally = 1,
          units_traded = Some (Some (25/4)),
          trade_logs = [(''d0'', Some 100, ''neither'', Some 1000),
                        (''d1'', Some 160, ''short_entry'', Some 1000),
                        (''d2'', Some 95, ''short_exit'', Some (5625/4)),
                        (''d3'', Some 130, ''neither'', Some (5625/4))]\<rparr>"
  by (simp add: scenario_def track_defs upt_rec)

theorem tally_counts_exits_witness:
  "track_trades scenario 1000 =
     Inr ([(''d0'', Some 100, ''neither'', Some 1000),
           (''d1'', Some 160, ''short_entry'', Some 1000),
           (''d2'', Some 95, ''short_exit'', Some (5625/4)),
           (''d3'', Some 130, ''neither'', Some (5625/4))], 1)
   \<and> exit_events [(''d0'', Some 100, ''neither'', Some 1000),
           (''d1'', Some 160, ''short_entry'', Some 1000),
           (''d2'', Some 95, ''short_exit'', Some (5625/4)),
           (''d3'', Some 130, ''neither'', Some (5625/4))] = 1
   \<and> (\<exists>sj sk. track_after scenario 1000 2 = Inr sj \<and> track_after scenario 1000 3 = Inr sk
          \<and> trades_tally sj \<le> trades_tally sk \<and> trades_tally sk \<le> 1)"
proof -
  have t: "track_trades scenario 1000 =
     Inr ([(''d0'', Some 100, ''neither'', Some 1000),
           (''d1'', Some 160, ''short_entry'', Some 1000),
           (''d2'', Some 95, ''short_exit'', Some (5625/4)),
           (''d3'', Some 130, ''neither'', Some (5625/4))], 1)"
    by (simp add: track_trades_def scenario_run)
  have n: "(2::nat) \<le> 3 \<and> 3 \<le> length (index scenario)" by (simp add: scenario_def)
  from tally_counts_exits[OF t] n t show ?thesis by metis
qed

text \<open>
  Claim C9, as amended. The simulator writes to the frame it is given: after the call
  the frame has the columns \<open>trade_pnl\<close>, \<open>total_trade_pnl\<close> and \<open>position\<close>; its index and
  all other columns are as before. The log and the tally depend only on the index, the
  columns \<open>portfolio_value\<close>, \<open>ewma\<close>, \<open>bollinger_upper\<close>, \<open>bollinger_lower\<close> and the
  initial investment: any frame equal to the input in these gives the same result, and
  so does a second run on the frame the first run has written to.
\<close>

theorem track_trades_effect:
  assumes "track_trades_frame df0 initial_investment = Inr df1"
  shows "index df1 = index df0
     \<and> (\<forall>c. c \<notin> {''trade_pnl'', ''total_trade_pnl'', ''position''} \<longrightarrow> column df1 c = column df0 c)
     \<and> column df1 ''trade_pnl'' \<noteq> None \<and> column df1 ''total_trade_pnl'' \<noteq> None
     \<and> column df1 ''position'' \<noteq> None
     \<and> track_trades df1 initial_investment = track_trades df0 initial_investment
     \<and> (\<forall>g. same_on {''portfolio_value'', ''ewma'', ''bollinger_upper'', ''bollinger_lower''} df0 g
            \<longrightarrow> track_trades g initial_investment = track_trades df0 initial_investment)"
proof -
  from assms obtain s where s: "track_run df0 initial_investment = Inr s" and d: "df1 = dframe s"
    by (auto simp: track_trades_frame_def ebind_Inr_iff)
  note f = track_run_frame[OF s]
  have same: "same_on {''portfolio_value'', ''ewma'', ''bollinger_upper'', ''bollinger_lower''} df0 df1"
    unfolding same_on_def d using f(1) f(2) by auto
  have again: "track_trades df1 initial_investment = track_trades df0 initial_investment"
    using track_trades_same[OF same] by simp
  have any: "track_trades g initial_investment = track_trades df0 initial_investment"
    if "same_on {''portfolio_value'', ''ewma'', ''bollinger_upper'', ''bollinger_lower''} df0 g" for g
    using track_trades_same[OF that] by simp
  show ?thesis
    using f(1) f(2) f(3) f(4) f(5) again any unfolding d by auto
qed

theorem track_trades_effect_witness:
  "\<exists>df1. track_trades_frame scenario 1000 = Inr df1
     \<and> index df1 = index scenario
     \<and> column df1 ''portfolio_value'' = column scenario ''portfolio_value''
     \<and> column df1 ''position'' = Some [Obj None, Obj (Some ''short''), Obj None, Obj None]
     \<and> column scenario ''position'' = None
     \<and> track_trades df1 1000 = track_trades scenario 1000"
proof -
  obtain df1 where d: "track_trades_frame scenario 1000 = Inr df1"
    "column df1 ''position'' = Some [Obj None, Obj (Some ''short''), Obj None, Obj None]"
    by (simp add: track_trades_frame_def scenario_run column_def)
  have "column scenario ''position'' = None" by (simp add: scenario_def column_def)
  with track_trades_effect[OF d(1)] d show ?thesis by auto
qed

text \<open>
  Against claim C9 as stated: the frame of four columns has seven after the call.
\<close>

theorem track_trades_changes_frame:
  "map fst (cols scenario) = [''portfolio_value'', ''ewma'', ''bollinger_upper'', ''bollinger_lower'']
   \<and> track_trades_frame scenario 1000 =
     Inr \<lparr>index = [''d0'', ''d1'', ''d2'', ''d3''],
            cols = [(''portfolio_value'', [Flt (Some 100), Flt (Some 160), Flt (Some 95), Flt (Some 130)]),
                    (''ewma'', [Flt (Some 100), Flt (Some 140), Flt (Some 120), Flt (Some 125)]),
                    (''bollinger_upper'', [Flt None, Flt (Some 150), Flt (Some 170), Flt (Some 180)]),
                    (''bollinger_lower'', [Flt None, Flt (Some 90), Flt (Some 80), Flt (Some 70)]),
                    (''trade_pnl'', [Flt (Some 0), Flt (Some 0), Flt (Some 0), Flt (Some 0)]),
                    (''total_trade_pnl'', [Flt (Some 1000), Flt (Some 1000), Flt (Some (5625/4)), Flt (Some (5625/4))]),
                    (''position'', [Obj None, Obj (Some ''short''), Obj None, Obj None])]\<rparr>"
  by (simp add: track_trades_frame_def scenario_run) (simp add: scenario_def)

subsection \<open>The simulator returns\<close>

lemma float_column_loc:
  assumes "float_column f c" "i < length (index f)"
  shows "\<exists>v. loc f i c = Inr (Flt v) \<and> loc_float f i c = Inr v"
proof -
  from assms(1) obtain xs where xs: "column f c = Some xs" "length xs = length (index f)"
    "\<forall>x \<in> set xs. \<exists>v. x = Flt v"
    by (auto simp: float_column_def)
  from xs(2,3) assms(2) obtain v where "xs ! i = Flt v" by (metis nth_mem)
  with xs(1,2) assms(2) show ?thesis
    by (simp add: loc_def loc_float_def as_float_def)
qed

lemma float_column_set_loc:
  assumes "float_column f c'" "c' \<noteq> c \<or> (\<exists>w. v = Flt w)"
  shows "float_column (set_loc f i c v) c'"
proof (cases "c' = c")
  case False
  with assms(1) show ?thesis by (simp add: float_column_def column_set_loc)
next
  case True
  with assms(2) obtain w where w: "v = Flt w" by auto
  from assms(1) True obtain xs where xs: "column f c = Some xs" "length xs = length (index f)"
    "\<forall>x \<in> set xs. \<exists>v. x = Flt v"
    by (auto simp: float_column_def)
  have "\<forall>x \<in> set (xs[i := Flt w]). \<exists>v. x = Flt v"
    using xs(3) by (metis insertE set_update_subset_insert subsetD)
  with xs True w show ?thesis by (simp add: float_column_def column_set_loc)
qed

lemma mark_to_market_ok:
  assumes "run_ok i s" "i < length (index (dframe s))"
  shows "\<exists>price ewma upper lower s1. mark_to_market i s = Inr (price, ewma, upper, lower, s1)
     \<and> (\<forall>c \<in> read_columns. float_column (dframe s1) c)
     \<and> length (trade_logs s1) = Suc i
     \<and> index (dframe s1) = index (dframe s)
     \<and> current_position s1 = current_position s \<and> units_traded s1 = units_traded s"
proof -
  have fc: "float_column (dframe s) c" if "c \<in> read_columns" for c
    using assms(1) that by (simp add: run_ok_def)
  have rc: "''portfolio_value'' \<in> read_columns" "''ewma'' \<in> read_columns"
    "''bollinger_upper'' \<in> read_columns" "''bollinger_lower'' \<in> read_columns"
    "''total_trade_pnl'' \<in> read_columns"
    by (simp_all add: read_columns_def)
  obtain price where p: "loc_float (dframe s) i ''portfolio_value'' = Inr price"
    using float_column_loc[OF fc[OF rc(1)] assms(2)] by blast
  obtain ewma where e: "loc_float (dframe s) i ''ewma'' = Inr ewma"
    using float_column_loc[OF fc[OF rc(2)] assms(2)] by blast
  obtain upper where u: "loc_float (dframe s) i ''bollinger_upper'' = Inr upper"
    using float_column_loc[OF fc[OF rc(3)] assms(2)] by blast
  obtain lower where l: "loc_float (dframe s) i ''bollinger_lower'' = Inr lower"
    using float_column_loc[OF fc[OF rc(4)] assms(2)] by blast
  obtain df1 w where df1: "(if i > 0
            then ebind (loc (dframe s) (i - 1) ''total_trade_pnl'') (\<lambda>previous.
                 Inr (set_loc (dframe s) i ''total_trade_pnl'' previous))
            else Inr (set_loc (dframe s) i ''total_trade_pnl'' (Flt (Some 0)))) = Inr df1"
    and df1': "df1 = set_loc (dframe s) i ''total_trade_pnl'' (Flt w)"
  proof (cases "i > 0")
    case True
    then have "i - 1 < length (index (dframe s))" using assms(2) by simp
    from float_column_loc[OF fc[OF rc(5)] this] obtain v where
      "loc (dframe s) (i - 1) ''total_trade_pnl'' = Inr (Flt v)" by blast
    with True that show ?thesis by simp
  next
    case False
    with that show ?thesis by simp
  qed
  have fc1: "float_column df1 c" if "c \<in> read_columns" for c
    unfolding df1' by (rule float_column_set_loc[OF fc[OF that]]) simp
  have i1: "index df1 = index (dframe s)" by (simp add: df1')
  obtain total where t: "loc_float df1 i ''total_trade_pnl'' = Inr total"
    using float_column_loc[OF fc1[OF rc(5)]] assms(2) i1 by auto
  show ?thesis
    using assms(1) fc1 i1
    by (simp add: mark_to_market_def p e u l df1 t Let_def run_ok_def)
qed

lemma enter_position_ok:
  assumes "\<forall>c \<in> read_columns. float_column (dframe s) c" "length (trade_logs s) = Suc i"
  shows "\<exists>s'. enter_position i side price s = Inr s' \<and> run_ok (Suc i) s'
     \<and> index (dframe s') = index (dframe s)"
proof -
  have i: "i < length (trade_logs s)" using assms(2) by simp
  obtain d p t0 v where li: "trade_logs s ! i = (d, p, t0, v)" by (cases "trade_logs s ! i")
  have fc: "float_column (set_loc (dframe s) i ''position'' (Obj (Some side))) c"
    if "c \<in> read_columns" for c
  proof (rule float_column_set_loc)
    show "float_column (dframe s) c" using assms(1) that by simp
    show "c \<noteq> ''position'' \<or> (\<exists>w. Obj (Some side) = Flt w)"
      using that by (auto simp: read_columns_def)
  qed
  show ?thesis
    using i fc assms(2)
    by (simp add: enter_position_def Let_def relabel_def li run_ok_def)
qed

lemma exit_position_ok:
  assumes "\<forall>c \<in> read_columns. float_column (dframe s) c" "length (trade_logs s) = Suc i"
    "units_traded s \<noteq> None" "i < length (index (dframe s))"
  shows "\<exists>s'. exit_position i side mv s = Inr s' \<and> run_ok (Suc i) s'
     \<and> index (dframe s') = index (dframe s)"
proof -
  have i: "i < length (trade_logs s)" using assms(2) by simp
  obtain d p t0 v where li: "trade_logs s ! i = (d, p, t0, v)" by (cases "trade_logs s ! i")
  obtain units where un: "units_traded s = Some units" using assms(3) by auto
  have tc: "''total_trade_pnl'' \<in> read_columns" by (simp add: read_columns_def)
  obtain total where t: "loc_float (dframe s) i ''total_trade_pnl'' = Inr total"
    using float_column_loc[OF _ assms(4)] assms(1) tc by blast
  let ?g = "set_loc (dframe s) i ''total_trade_pnl'' (Flt (fadd total (fmul units mv)))"
  have fc: "float_column ?g c" if "c \<in> read_columns" for c
    by (rule float_column_set_loc) (use assms(1) that in auto)
  have ig: "i < length (index ?g)" using assms(4) by simp
  obtain total' where t': "loc_float ?g i ''total_trade_pnl'' = Inr total'"
    using float_column_loc[OF fc[OF tc] ig] by blast
  show ?thesis
    using i fc assms(2)
    by (simp add: exit_position_def Let_def un t relabel_exit_def li t' run_ok_def)
qed

lemma transition_ok:
  assumes "\<forall>c \<in> read_columns. float_column (dframe s) c" "length (trade_logs s) = Suc i"
    "current_position s \<noteq> None \<longrightarrow> units_traded s \<noteq> None" "i < length (index (dframe s))"
  shows "\<exists>s'. transition i price ewma upper lower s = Inr s' \<and> run_ok (Suc i) s'
     \<and> index (dframe s') = index (dframe s)"
proof (cases "current_position s = None \<and> fgt price upper")
  case True
  with enter_position_ok[OF assms(1,2)] show ?thesis by (simp add: transition_def)
next
  case c1: False
  show ?thesis
  proof (cases "current_position s = None \<and> flt price lower")
    case True
    with c1 enter_position_ok[OF assms(1,2)] show ?thesis by (simp add: transition_def)
  next
    case c2: False
    show ?thesis
    proof (cases "current_position s = Some ''short'' \<and> flt price ewma")
      case True
      then have "units_traded s \<noteq> None" using assms(3) by simp
      from exit_position_ok[OF assms(1,2) this assms(4)] True c1 c2 show ?thesis
        by (simp add: transition_def)
    next
      case c3: False
      show ?thesis
      proof (cases "current_position s = Some ''long'' \<and> fgt price ewma")
        case True
        then have "units_traded s \<noteq> None" using assms(3) by simp
        from exit_position_ok[OF assms(1,2) this assms(4)] True c1 c2 c3 show ?thesis
          by (simp add: transition_def)
      next
        case False
        have "transition i price ewma upper lower s = Inr s"
          unfolding transition_def using c1 c2 c3 False by (simp only: if_False)
        with assms(1,2,3) show ?thesis by (simp add: run_ok_def)
      qed
    qed
  qed
qed

lemma track_step_ok:
  assumes "run_ok i s" "i < length (index (dframe s))"
  shows "\<exists>s'. track_step i s = Inr s' \<and> run_ok (Suc i) s' \<and> index (dframe s') = index (dframe s)"
proof -
  from mark_to_market_ok[OF assms] obtain price ewma upper lower s1 where
    m: "mark_to_market i s = Inr (price, ewma, upper, lower, s1)"
    and s1: "\<forall>c \<in> read_columns. float_column (dframe s1) c" "length (trade_logs s1) = Suc i"
      "index (dframe s1) = index (dframe s)"
      "current_position s1 = current_position s" "units_traded s1 = units_traded s"
    by blast
  have u: "current_position s1 \<noteq> None \<longrightarrow> units_traded s1 \<noteq> None"
    using assms(1) s1(4,5) by (simp add: run_ok_def)
  have i: "i < length (index (dframe s1))" using assms(2) s1(3) by simp
  from transition_ok[OF s1(1,2) u i, of price ewma upper lower] s1(3)
  show ?thesis by (auto simp: track_step_def m)
qed

lemma track_loop_ok:
  assumes "run_ok i s" "n \<le> length (index (dframe s))"
  shows "\<exists>s'. track_loop [i..<n] s = Inr s'"
  using assms
proof (induction "n - i" arbitrary: i s)
  case 0
  then show ?case by simp
next
  case (Suc k)
  then have lt: "i < n" by simp
  then have u: "[i..<n] = i # [Suc i..<n]" by (simp add: upt_conv_Cons)
  have "i < length (index (dframe s))" using lt Suc.prems(2) by simp
  from track_step_ok[OF Suc.prems(1) this] obtain s1 where
    s1: "track_step i s = Inr s1" "run_ok (Suc i) s1" "index (dframe s1) = index (dframe s)" by blast
  have "\<exists>s'. track_loop [Suc i..<n] s1 = Inr s'"
    by (rule Suc.hyps(1)[OF _ s1(2)]) (use Suc.hyps(2) Suc.prems(2) s1(3) in auto)
  then show ?case by (simp add: u s1(1))
qed

lemma float_column_assign_scalar:
  "float_column f c' \<Longrightarrow> c' \<noteq> c \<Longrightarrow> float_column (assign_scalar f c v) c'"
  by (simp add: float_column_def column_assign_scalar)

lemma float_column_assign_scalar_new:
  "float_column (assign_scalar f c (Flt w)) c"
  by (simp add: float_column_def column_assign_scalar)

lemma track_init_ok:
  assumes "band_frame f"
  shows "\<exists>s. track_init f iv = Inr s \<and> run_ok 1 s \<and> index (dframe s) = index f"
proof -
  let ?f3 = "assign_scalar (assign_scalar (assign_scalar f ''trade_pnl'' (Flt (Some 0)))
       ''total_trade_pnl'' (Flt (Some 0))) ''position'' (Obj None)"
  let ?f4 = "set_loc ?f3 0 ''total_trade_pnl'' (Flt (Some iv))"
  have ne: "index f \<noteq> []" using assms by (simp add: band_frame_def)
  have in4: "float_column f c"
    if "c \<in> {''portfolio_value'', ''ewma'', ''bollinger_upper'', ''bollinger_lower''}" for c
    using assms that by (auto simp: band_frame_def)
  have f3: "float_column ?f3 c" if "c \<in> read_columns" for c
  proof (cases "c = ''total_trade_pnl''")
    case True
    show ?thesis unfolding True
      by (rule float_column_assign_scalar[OF float_column_assign_scalar_new]) simp
  next
    case False
    with that have c: "c \<in> {''portfolio_value'', ''ewma'', ''bollinger_upper'', ''bollinger_lower''}"
      by (simp add: read_columns_def)
    then have "c \<noteq> ''trade_pnl''" "c \<noteq> ''position''" by auto
    with False in4[OF c] show ?thesis by (simp add: float_column_assign_scalar)
  qed
  have f4: "float_column ?f4 c" if "c \<in> read_columns" for c
    by (rule float_column_set_loc[OF f3[OF that]]) simp
  have "0 < length (index ?f4)" using ne by simp
  from float_column_loc[OF f4 this, of "''portfolio_value''"]
  obtain p0 where p0: "loc_float ?f4 0 ''portfolio_value'' = Inr p0"
    by (auto simp: read_columns_def)
  show ?thesis
    using ne f4 by (simp add: track_init_def Let_def p0 run_ok_def)
qed

text \<open>
  On a frame with at least one row whose four input columns hold doubles, the simulator
  raises nothing and returns a log and a tally; the band estimator returns such a frame
  for every series that is not empty.
\<close>

lemma track_trades_returns:
  assumes "band_frame f"
  shows "\<exists>logs tally. track_trades f iv = Inr (logs, tally)"
proof -
  from track_init_ok[OF assms] obtain s0 where
    s0: "track_init f iv = Inr s0" "run_ok 1 s0" "index (dframe s0) = index f" by blast
  have "\<exists>s'. track_loop [1..<length (index f)] s0 = Inr s'"
    by (rule track_loop_ok[OF s0(2)]) (simp add: s0(3))
  then show ?thesis
    by (auto simp: track_trades_def track_run_def track_after_def s0(1))
qed

lemma add_ewma_bollinger_bands_band_frame:
  assumes "0 < h" "pvs \<noteq> []"
  shows "\<exists>f. add_ewma_bollinger_bands pvs h = Inr f \<and> band_frame f"
  unfolding add_ewma_bollinger_bands_frame[OF assms(1)]
  using assms(2)
  by (simp add: band_frame_def float_column_def column_def ewm_mean_length rolling_std_length)

end
